theory Spec2Isabelle
  imports Main "HOL-Library.Multiset"
begin

section \<open>JavaScript values and objects used by the extension\<close>

text \<open>
  The extension keeps three slots in the workspace state: the array \<open>bookmarks\<close>, the
  object \<open>bookmarkGroups\<close> (group name to colour) and the string
  \<open>activeBookmarkGroup\<close>. The group object is a plain object: a read \<open>groups[k]\<close>
  returns the own property \<open>k\<close> when there is one, and otherwise the member \<open>k\<close> of
  \<open>Object.prototype\<close> when \<open>k\<close> names one (a function, or the prototype object itself
  for \<open>__proto__\<close>), and otherwise \<open>undefined\<close>. So a value read from the group object
  is a string, \<open>undefined\<close>, or an inherited member. The conditions
  \<open>if (groups[name])\<close> and \<open>if (!color)\<close> test JavaScript truthiness: \<open>undefined\<close>
  and the empty string are falsy, every other string and every inherited member is
  truthy.
\<close>

datatype jsval = Undefined | Str string | Inherited

fun truthy :: "jsval \<Rightarrow> bool" where
  "truthy Undefined = False"
| "truthy (Str s) = (s \<noteq> [])"
| "truthy Inherited = True"

type_synonym groups = "(string \<times> jsval) list"

text \<open>The names of the members of \<open>Object.prototype\<close>.\<close>

definition Object_prototype :: "string list" where
  "Object_prototype =
     [''constructor'', ''__defineGetter__'', ''__defineSetter__'', ''hasOwnProperty'',
      ''__lookupGetter__'', ''__lookupSetter__'', ''isPrototypeOf'',
      ''propertyIsEnumerable'', ''toString'', ''valueOf'', ''__proto__'',
      ''toLocaleString'']"

text \<open>The own property \<open>k\<close> of the group object, if there is one.\<close>

fun js_own :: "groups \<Rightarrow> string \<Rightarrow> jsval option" where
  "js_own [] k = None"
| "js_own ((k', v) # g) k = (if k' = k then Some v else js_own g k)"

text \<open>\<open>groups[k]\<close>: the own property, else the inherited member, else \<open>undefined\<close>.\<close>

definition js_get :: "groups \<Rightarrow> string \<Rightarrow> jsval" where
  "js_get g k =
     (case js_own g k of
        Some v \<Rightarrow> v
      | None \<Rightarrow> if k \<in> set Object_prototype then Inherited else Undefined)"

text \<open>
  Writing the own property \<open>k\<close>: an existing property keeps its place, a new one is
  created last.
\<close>

fun js_put :: "groups \<Rightarrow> string \<Rightarrow> jsval \<Rightarrow> groups" where
  "js_put [] k v = [(k, v)]"
| "js_put ((k', v') # g) k v = (if k' = k then (k, v) # g else (k', v') # js_put g k v)"

text \<open>
  \<open>groups[k] = v\<close> writes the own property \<open>k\<close>, except that an assignment to
  \<open>__proto__\<close> on an object without such an own property goes to the inherited setter,
  which creates no property and ignores a value that is not an object (no handler
  assigns an object there: each assigns where the read was falsy, or to "Default").
\<close>

definition js_set :: "groups \<Rightarrow> string \<Rightarrow> jsval \<Rightarrow> groups" where
  "js_set g k v = (if k = ''__proto__'' \<and> js_own g k = None then g else js_put g k v)"

text \<open>\<open>delete groups[k]\<close> removes the own property.\<close>

fun js_delete :: "groups \<Rightarrow> string \<Rightarrow> groups" where
  "js_delete [] k = []"
| "js_delete ((k', v) # g) k = (if k' = k then js_delete g k else (k', v) # js_delete g k)"

text \<open>
  \<open>Object.keys(groups)\<close> lists the keys that are array indices (canonical decimal
  numerals below \<open>2^32 - 1\<close>) first, in ascending numeric order, and then every other
  key in the order of creation.
\<close>

definition is_digit :: "char \<Rightarrow> bool" where
  "is_digit c = (48 \<le> (of_char c :: nat) \<and> (of_char c :: nat) \<le> 57)"

fun digits_val :: "nat \<Rightarrow> string \<Rightarrow> nat" where
  "digits_val acc [] = acc"
| "digits_val acc (c # cs) = digits_val (10 * acc + ((of_char c :: nat) - 48)) cs"

definition is_array_index :: "string \<Rightarrow> bool" where
  "is_array_index k =
     (case k of
        [] \<Rightarrow> False
      | c # cs \<Rightarrow> list_all is_digit k \<and> (cs = [] \<or> c \<noteq> CHR ''0'') \<and> digits_val 0 k < 2 ^ 32 - 1)"

definition Object_keys :: "groups \<Rightarrow> string list" where
  "Object_keys g =
     sort_key (digits_val 0) (filter is_array_index (map fst g))
       @ filter (\<lambda>k. \<not> is_array_index k) (map fst g)"

text \<open>\<open>Array.prototype.findIndex\<close>: the index of the first match, or \<open>-1\<close>.\<close>

fun findIndex :: "('a \<Rightarrow> bool) \<Rightarrow> 'a list \<Rightarrow> int" where
  "findIndex P [] = - 1"
| "findIndex P (x # xs) =
     (if P x then 0 else (let i = findIndex P xs in if i < 0 then - 1 else i + 1))"

text \<open>\<open>xs.splice(idx, 1)\<close> for an index \<open>idx >= 0\<close>.\<close>

definition splice1 :: "int \<Rightarrow> 'a list \<Rightarrow> 'a list" where
  "splice1 idx xs = take (nat idx) xs @ drop (Suc (nat idx)) xs"

text \<open>\<open>text.split("\n")\<close>: the segments between the separators, at least one.\<close>

fun js_split :: "char \<Rightarrow> string \<Rightarrow> string list" where
  "js_split sep [] = [[]]"
| "js_split sep (c # cs) =
     (if c = sep then [] # js_split sep cs
      else (case js_split sep cs of [] \<Rightarrow> [[c]] | r # rs \<Rightarrow> (c # r) # rs))"

text \<open>JavaScript's remainder \<open>a % b\<close> has the sign of the dividend.\<close>

definition js_rem :: "int \<Rightarrow> int \<Rightarrow> int" where
  "js_rem a b = sgn a * (\<bar>a\<bar> mod \<bar>b\<bar>)"

text \<open>\<open>xs[i]\<close> for an integer index: \<open>undefined\<close> out of range.\<close>

definition js_index :: "'a list \<Rightarrow> int \<Rightarrow> 'a option" where
  "js_index xs i = (if 0 \<le> i \<and> i < int (length xs) then Some (xs ! nat i) else None)"

section \<open>Data model\<close>

record bookmark =
  uri :: string
  line :: nat
  content :: string
  groupName :: string

text \<open>
  The state that the command handlers read and write: the three workspace-state slots,
  the keys of the module-level map \<open>decorationTypes\<close>, and the number of calls of
  \<open>Math.random\<close> made so far. The module variable \<open>activeGroup\<close> and the slot
  \<open>activeBookmarkGroup\<close> are always written together and are one field.
\<close>

record state =
  bookmarks :: "bookmark list"
  bookmarkGroups :: groups
  activeGroup :: string
  decorationTypes :: "string set"
  draws :: nat

text \<open>
  What a handler reads from the editor host: the configured \<open>defaultColors\<close>, the
  visible text editors (document URI and line count), the six hexadecimal digits that
  \<open>hslToHex(Math.random() * 360, 70, 80)\<close> produces at each call of \<open>Math.random\<close>
  and the two hexadecimal digits of \<open>Math.round(opacity * 255)\<close> (both are
  floating-point arithmetic and stay parameters), and the host's
  \<open>String.prototype.localeCompare\<close>.
\<close>

record env =
  defaultColors :: "string list"
  visibleTextEditors :: "(string \<times> nat) list"
  randomHex :: "nat \<Rightarrow> string"
  alphaHex :: string
  localeCompare :: "string \<Rightarrow> string \<Rightarrow> int"

text \<open>The active editor's document URI, cursor line and trimmed text of that line.\<close>

record cursor =
  cursorUri :: string
  cursorLine :: nat
  cursorText :: string

datatype message = Information string | Warning string

text \<open>
  The one exception the handlers can raise: a method call on a value that has no such
  method. A function that can raise returns, on the left, the error with the state at
  that moment (what was written before stays written) and, on the right, the state it
  completes with.
\<close>

datatype error = TypeError

fun stateOf :: "error \<times> state + state \<Rightarrow> state" where
  "stateOf (Inl (e, s)) = s"
| "stateOf (Inr s) = s"

definition firstDefaultColor :: "env \<Rightarrow> jsval" where
  "firstDefaultColor env = (case defaultColors env of [] \<Rightarrow> Undefined | c # _ \<Rightarrow> Str c)"

text \<open>The template literal of \<open>hslToHex\<close> always starts with \<open>#\<close>.\<close>

definition hslToHex :: "env \<Rightarrow> nat \<Rightarrow> string" where
  "hslToHex env n = CHR ''#'' # randomHex env n"

text \<open>
  \<open>withAlpha(hex, alpha)\<close> calls \<open>hex.replace("#", "")\<close>, which removes the first
  \<open>#\<close> of a string and raises a \<open>TypeError\<close> on any other value.
\<close>

fun removeFirst :: "char \<Rightarrow> string \<Rightarrow> string" where
  "removeFirst c [] = []"
| "removeFirst c (x # xs) = (if x = c then xs else x # removeFirst c xs)"

definition withAlpha :: "env \<Rightarrow> jsval \<Rightarrow> error + string" where
  "withAlpha env hex =
     (case hex of
        Str h \<Rightarrow> Inr (CHR ''#'' # removeFirst (CHR ''#'') h @ alphaHex env)
      | _ \<Rightarrow> Inl TypeError)"

section \<open>Decorations\<close>

text \<open>
  \<open>ensureDecorationForGroup\<close> gives a group without a colour a generated one, and
  creates the decoration type when asked to or when there is none; creating it calls
  \<open>withAlpha\<close> on the colour.
\<close>

definition ensureDecorationForGroup ::
  "env \<Rightarrow> string \<Rightarrow> bool \<Rightarrow> state \<Rightarrow> error \<times> state + state" where
  "ensureDecorationForGroup env grp forceRefresh s =
     (let groups = bookmarkGroups s;
          found = js_get groups grp;
          color = (if \<not> truthy found then Str (hslToHex env (draws s)) else found);
          s1 = (if \<not> truthy found
                then s\<lparr>bookmarkGroups := js_set groups grp color, draws := Suc (draws s)\<rparr>
                else s)
      in if forceRefresh \<or> grp \<notin> decorationTypes s1
         then (case withAlpha env color of
                 Inl e \<Rightarrow> Inl (e, s1)
               | Inr _ \<Rightarrow> Inr (s1\<lparr>decorationTypes := insert grp (decorationTypes s1)\<rparr>))
         else Inr s1)"

text \<open>The loop of \<open>updateDecorations\<close> over the bookmarks; an exception ends it.\<close>

fun decorateBookmarks ::
  "env \<Rightarrow> string \<times> nat \<Rightarrow> bookmark list \<Rightarrow> state \<Rightarrow> error \<times> state + state" where
  "decorateBookmarks env ed [] s = Inr s"
| "decorateBookmarks env ed (b # bs) s =
     (if uri b = fst ed \<and> line b < snd ed \<and> groupName b \<notin> decorationTypes s
      then (case ensureDecorationForGroup env (groupName b) False s of
              Inl t \<Rightarrow> Inl t
            | Inr s' \<Rightarrow> decorateBookmarks env ed bs s')
      else decorateBookmarks env ed bs s)"

definition updateDecorations :: "env \<Rightarrow> string \<times> nat \<Rightarrow> state \<Rightarrow> error \<times> state + state" where
  "updateDecorations env ed s = decorateBookmarks env ed (bookmarks s) s"

text \<open>\<open>visibleTextEditors.forEach(updateDecorations)\<close>.\<close>

fun forEachEditor :: "env \<Rightarrow> (string \<times> nat) list \<Rightarrow> state \<Rightarrow> error \<times> state + state" where
  "forEachEditor env [] s = Inr s"
| "forEachEditor env (ed # eds) s =
     (case updateDecorations env ed s of
        Inl t \<Rightarrow> Inl t
      | Inr s' \<Rightarrow> forEachEditor env eds s')"

definition updateAllDecorations :: "env \<Rightarrow> state \<Rightarrow> error \<times> state + state" where
  "updateAllDecorations env s = forEachEditor env (visibleTextEditors env) s"

section \<open>Command handlers\<close>

text \<open>
  Each handler takes what the user or the editor supplies (the active editor, the tree
  item the command was invoked on, the answer typed into an input box or chosen in a
  dialog) and the state, and returns the message it shows, if any, with the new state.
  \<open>None\<close> for an input stands for \<open>undefined\<close>: no editor, no item, a dismissed
  dialog. A handler that an exception ends returns the state at that moment, and no
  message that it would have shown later.
\<close>

definition sameLocation :: "string \<Rightarrow> nat \<Rightarrow> string \<Rightarrow> bookmark \<Rightarrow> bool" where
  "sameLocation u l g b = (uri b = u \<and> line b = l \<and> groupName b = g)"

text \<open>The repair of an invalid active group at the start of \<open>bm.toggleBookmark\<close>.\<close>

definition repairActiveGroup :: "env \<Rightarrow> state \<Rightarrow> state" where
  "repairActiveGroup env s =
     (let groups = bookmarkGroups s in
      if \<not> truthy (js_get groups (activeGroup s))
      then (let names = Object_keys groups;
                groups' = (if names = [] then js_set groups ''Default'' (firstDefaultColor env)
                           else groups)
            in s\<lparr>bookmarkGroups := groups',
                 activeGroup := (case names of [] \<Rightarrow> ''Default''
                                 | n # _ \<Rightarrow> if n = [] then ''Default'' else n)\<rparr>)
      else s)"

definition bm_toggleBookmark :: "env \<Rightarrow> cursor option \<Rightarrow> state \<Rightarrow> message option \<times> state" where
  "bm_toggleBookmark env e s =
     (case e of
        None \<Rightarrow> (Some (Information ''Open a file first.''), s)
      | Some c \<Rightarrow>
          (let s1 = repairActiveGroup env s;
               bms = bookmarks s1;
               idx = findIndex (sameLocation (cursorUri c) (cursorLine c) (activeGroup s1)) bms
           in if idx \<ge> 0
              then (Some (Information ''Bookmark removed''),
                    stateOf (updateAllDecorations env (s1\<lparr>bookmarks := splice1 idx bms\<rparr>)))
              else (Some (Information (''Bookmark added to '' @ activeGroup s1)),
                    stateOf (updateAllDecorations env
                      (s1\<lparr>bookmarks := bms @ [\<lparr>uri = cursorUri c, line = cursorLine c,
                                                content = cursorText c,
                                                groupName = activeGroup s1\<rparr>]\<rparr>)))))"

text \<open>A message that the handler shows after the decorations are updated.\<close>

definition thenShow :: "message \<Rightarrow> error \<times> state + state \<Rightarrow> message option \<times> state" where
  "thenShow m r = (case r of Inl (e, s) \<Rightarrow> (None, s) | Inr s \<Rightarrow> (Some m, s))"

definition bm_clearBookmarks :: "env \<Rightarrow> string option \<Rightarrow> state \<Rightarrow> message option \<times> state" where
  "bm_clearBookmarks env confirm s =
     (if filter (\<lambda>b. groupName b = activeGroup s) (bookmarks s) = []
      then (Some (Information ''No bookmarks to clear''), s)
      else if confirm \<noteq> Some ''Yes'' then (None, s)
      else thenShow (Information (''Cleared bookmarks from '' @ activeGroup s))
             (updateAllDecorations env
                (s\<lparr>bookmarks := filter (\<lambda>b. groupName b \<noteq> activeGroup s) (bookmarks s)\<rparr>)))"

definition bm_removeBookmark :: "env \<Rightarrow> bookmark option \<Rightarrow> state \<Rightarrow> message option \<times> state" where
  "bm_removeBookmark env item s =
     (case item of
        None \<Rightarrow> (None, s)
      | Some bm \<Rightarrow>
          (let all = bookmarks s;
               idx = findIndex (sameLocation (uri bm) (line bm) (groupName bm)) all
           in if idx \<ge> 0
              then thenShow (Information ''Bookmark removed'')
                     (updateAllDecorations env (s\<lparr>bookmarks := splice1 idx all\<rparr>))
              else (None, s)))"

text \<open>The quick pick returns one of the offered items, or \<open>undefined\<close> when dismissed.\<close>

definition showQuickPick :: "string list \<Rightarrow> nat option \<Rightarrow> string option" where
  "showQuickPick items choice =
     (case choice of
        None \<Rightarrow> None
      | Some i \<Rightarrow> if i < length items then Some (items ! i) else None)"

definition bm_moveBookmarkToGroup ::
  "env \<Rightarrow> bookmark option \<Rightarrow> nat option \<Rightarrow> state \<Rightarrow> message option \<times> state" where
  "bm_moveBookmarkToGroup env item choice s =
     (case item of
        None \<Rightarrow> (None, s)
      | Some bm \<Rightarrow>
          (let groups = filter (\<lambda>g. g \<noteq> groupName bm) (Object_keys (bookmarkGroups s)) in
           if groups = [] then (Some (Information ''No other groups''), s)
           else (case showQuickPick groups choice of
                   None \<Rightarrow> (None, s)
                 | Some target \<Rightarrow>
                     if target = [] then (None, s)
                     else (let all = bookmarks s;
                               idx = findIndex (sameLocation (uri bm) (line bm) (groupName bm)) all
                           in if idx \<ge> 0
                              then thenShow (Information (''Moved to '' @ target))
                                     (updateAllDecorations env
                                        (s\<lparr>bookmarks :=
                                             all[nat idx := (all ! nat idx)\<lparr>groupName := target\<rparr>]\<rparr>))
                              else (None, s)))))"

definition bm_setActiveGroup :: "env \<Rightarrow> string option \<Rightarrow> state \<Rightarrow> message option \<times> state" where
  "bm_setActiveGroup env item s =
     (case item of
        None \<Rightarrow> (None, s)
      | Some g \<Rightarrow> if g = [] then (None, s)
                  else (None, stateOf (updateAllDecorations env (s\<lparr>activeGroup := g\<rparr>))))"

definition bm_createGroup :: "env \<Rightarrow> string option \<Rightarrow> state \<Rightarrow> message option \<times> state" where
  "bm_createGroup env input s =
     (case input of
        None \<Rightarrow> (None, s)
      | Some name \<Rightarrow>
          if name = [] then (None, s)
          else (let groups = bookmarkGroups s in
                if truthy (js_get groups name) then (Some (Warning ''Group already exists''), s)
                else (let color = Str (hslToHex env (draws s));
                          s1 = s\<lparr>bookmarkGroups := js_set groups name color,
                                 draws := Suc (draws s)\<rparr>
                      in case ensureDecorationForGroup env name True s1 of
                           Inl (e, st) \<Rightarrow> (None, st)
                         | Inr s2 \<Rightarrow>
                             (None, stateOf (updateAllDecorations env
                                               (s2\<lparr>activeGroup := name\<rparr>))))))"

definition bm_renameGroup ::
  "env \<Rightarrow> string option \<Rightarrow> string option \<Rightarrow> state \<Rightarrow> message option \<times> state" where
  "bm_renameGroup env item input s =
     (case item of
        None \<Rightarrow> (None, s)
      | Some old \<Rightarrow>
          if old = [] then (None, s)
          else (case input of
                  None \<Rightarrow> (None, s)
                | Some newName \<Rightarrow>
                    if newName = [] \<or> newName = old then (None, s)
                    else (let groups = bookmarkGroups s in
                          if truthy (js_get groups newName) then (Some (Warning ''Exists''), s)
                          else (let color = js_get groups old;
                                    groups' = js_set (js_delete groups old) newName color;
                                    bms = map (\<lambda>b. if groupName b = old
                                                    then b\<lparr>groupName := newName\<rparr> else b)
                                              (bookmarks s);
                                    s1 = s\<lparr>bookmarkGroups := groups', bookmarks := bms,
                                           decorationTypes := decorationTypes s - {old}\<rparr>
                                in case ensureDecorationForGroup env newName True s1 of
                                     Inl (e, st) \<Rightarrow> (None, st)
                                   | Inr s2 \<Rightarrow>
                                       (let s3 = (if activeGroup s2 = old
                                                  then s2\<lparr>activeGroup := newName\<rparr> else s2)
                                        in (None, stateOf (updateAllDecorations env s3)))))))"

definition bm_deleteGroup ::
  "env \<Rightarrow> string option \<Rightarrow> string option \<Rightarrow> state \<Rightarrow> message option \<times> state" where
  "bm_deleteGroup env item confirm s =
     (case item of
        None \<Rightarrow> (None, s)
      | Some name \<Rightarrow>
          if name = [] then (None, s)
          else if confirm \<noteq> Some ''Yes'' then (None, s)
          else (let groups = js_delete (bookmarkGroups s) name;
                    remaining = filter (\<lambda>b. groupName b \<noteq> name) (bookmarks s);
                    s1 = s\<lparr>bookmarkGroups := groups, bookmarks := remaining,
                           decorationTypes := decorationTypes s - {name}\<rparr>;
                    s2 = (if activeGroup s1 = name
                          then (case Object_keys groups of
                                  [] \<Rightarrow> s1\<lparr>bookmarkGroups :=
                                              js_set groups ''Default'' (firstDefaultColor env),
                                            activeGroup := ''Default''\<rparr>
                                | k # _ \<Rightarrow> s1\<lparr>activeGroup := k\<rparr>)
                          else s1)
                in (None, stateOf (updateAllDecorations env s2))))"

section \<open>Navigation\<close>

text \<open>
  The comparison function passed to \<open>sort\<close>, and \<open>Array.prototype.sort\<close> itself: a
  stable sort, written as insertion from the right.
\<close>

definition compareBookmarks :: "env \<Rightarrow> bookmark \<Rightarrow> bookmark \<Rightarrow> int" where
  "compareBookmarks env a b =
     (if uri a \<noteq> uri b then localeCompare env (uri a) (uri b)
      else int (line a) - int (line b))"

fun insertBy :: "('a \<Rightarrow> 'a \<Rightarrow> int) \<Rightarrow> 'a \<Rightarrow> 'a list \<Rightarrow> 'a list" where
  "insertBy cmp x [] = [x]"
| "insertBy cmp x (y # ys) = (if cmp x y \<le> 0 then x # y # ys else y # insertBy cmp x ys)"

definition js_sort :: "('a \<Rightarrow> 'a \<Rightarrow> int) \<Rightarrow> 'a list \<Rightarrow> 'a list" where
  "js_sort cmp xs = foldr (insertBy cmp) xs []"

definition activeSorted :: "env \<Rightarrow> state \<Rightarrow> bookmark list" where
  "activeSorted env s =
     js_sort (compareBookmarks env) (filter (\<lambda>b. groupName b = activeGroup s) (bookmarks s))"

text \<open>Both commands return the bookmark whose document is opened, if any.\<close>

definition bm_nextBookmark :: "env \<Rightarrow> cursor option \<Rightarrow> state \<Rightarrow> bookmark option" where
  "bm_nextBookmark env e s =
     (case e of
        None \<Rightarrow> None
      | Some c \<Rightarrow>
          (let all = activeSorted env s in
           if all = [] then None
           else (let idx = findIndex (\<lambda>b. uri b = cursorUri c \<and> line b = cursorLine c) all
                 in js_index all (js_rem (idx + 1) (int (length all))))))"

definition bm_prevBookmark :: "env \<Rightarrow> cursor option \<Rightarrow> state \<Rightarrow> bookmark option" where
  "bm_prevBookmark env e s =
     (case e of
        None \<Rightarrow> None
      | Some c \<Rightarrow>
          (let all = activeSorted env s in
           if all = [] then None
           else (let idx = findIndex (\<lambda>b. uri b = cursorUri c \<and> line b = cursorLine c) all
                 in js_index all (js_rem (idx - 1 + int (length all)) (int (length all))))))"

section \<open>Keeping bookmarks in sync with edits\<close>

record contentChange =
  startLine :: nat
  endLine :: nat
  newText :: string

definition lineDelta :: "contentChange \<Rightarrow> int" where
  "lineDelta change =
     (let oldCount = int (endLine change) - int (startLine change) + 1;
          newCount = int (length (js_split (CHR 0x0A) (newText change)))
      in newCount - oldCount)"

definition applyChange :: "string \<Rightarrow> contentChange \<Rightarrow> bookmark list \<Rightarrow> bookmark list" where
  "applyChange docUri change bms =
     (let delta = lineDelta change in
      if delta = 0 then bms
      else map (\<lambda>bm. if uri bm = docUri \<and> startLine change < line bm
                      then bm\<lparr>line := nat (max 0 (int (line bm) + delta))\<rparr>
                      else bm) bms)"

definition onDidChangeTextDocument :: "env \<Rightarrow> string \<Rightarrow> contentChange list \<Rightarrow> state \<Rightarrow> state" where
  "onDidChangeTextDocument env docUri changes s =
     (if changes = [] then s
      else stateOf (updateAllDecorations env
             (s\<lparr>bookmarks := fold (applyChange docUri) changes (bookmarks s)\<rparr>)))"

section \<open>Properties of the store and sequences of commands\<close>

text \<open>
  The number of bookmarks stored under a key (file, line, group) is
  \<open>length (filter (sameLocation f l g) (bookmarks s))\<close>. A bookmark is owned when its
  group is an own property of the group object with a truthy colour. A store is well
  formed when no key is stored twice, the group of every bookmark passes the test
  \<open>groups[g]\<close>, every group has a truthy colour, and no group has the empty name.
\<close>

definition bookmarkKey :: "bookmark \<Rightarrow> string \<times> nat \<times> string" where
  "bookmarkKey b = (uri b, line b, groupName b)"

definition uniqueBookmarks :: "state \<Rightarrow> bool" where
  "uniqueBookmarks s = distinct (map bookmarkKey (bookmarks s))"

definition groupsColoured :: "state \<Rightarrow> bool" where
  "groupsColoured s =
     list_all (\<lambda>kv. fst kv \<noteq> [] \<and> truthy (snd kv)) (bookmarkGroups s)"

definition bookmarksOwned :: "state \<Rightarrow> bool" where
  "bookmarksOwned s =
     list_all (\<lambda>b. case js_own (bookmarkGroups s) (groupName b) of
                     None \<Rightarrow> False
                   | Some v \<Rightarrow> truthy v) (bookmarks s)"

definition bookmarksGrouped :: "state \<Rightarrow> bool" where
  "bookmarksGrouped s =
     list_all (\<lambda>b. truthy (js_get (bookmarkGroups s) (groupName b))) (bookmarks s)"

definition wellFormed :: "state \<Rightarrow> bool" where
  "wellFormed s = (uniqueBookmarks s \<and> bookmarksGrouped s \<and> groupsColoured s)"

text \<open>The commands and the edit notification, each with the input it receives.\<close>

datatype command =
    Toggle "cursor option"
  | Remove "bookmark option"
  | Clear "string option"
  | SetActive "string option"
  | Create "string option"
  | Rename "string option" "string option"
  | Delete "string option" "string option"
  | Move "bookmark option" "nat option"
  | Edit string "contentChange list"

fun exec :: "env \<Rightarrow> command \<Rightarrow> state \<Rightarrow> state" where
  "exec env (Toggle e) s = snd (bm_toggleBookmark env e s)"
| "exec env (Remove item) s = snd (bm_removeBookmark env item s)"
| "exec env (Clear confirm) s = snd (bm_clearBookmarks env confirm s)"
| "exec env (SetActive item) s = snd (bm_setActiveGroup env item s)"
| "exec env (Create input) s = snd (bm_createGroup env input s)"
| "exec env (Rename item input) s = snd (bm_renameGroup env item input s)"
| "exec env (Delete item confirm) s = snd (bm_deleteGroup env item confirm s)"
| "exec env (Move item choice) s = snd (bm_moveBookmarkToGroup env item choice s)"
| "exec env (Edit docUri changes) s = onDidChangeTextDocument env docUri changes s"

fun run :: "(env \<times> command) list \<Rightarrow> state \<Rightarrow> state" where
  "run [] s = s"
| "run ((env, c) # cs) s = run cs (exec env c s)"

text \<open>
  The two ways in which a command puts a bookmark onto a key that another bookmark
  has. A move does when the bookmark it moves is stored and the picked group already
  bookmarks that line of that file. A document change does when, with every bookmark of
  the file below its start line on the line the change brings it to, two bookmarks
  have the same file, line and group.
\<close>

definition movesOntoBookmark :: "state \<Rightarrow> bookmark option \<Rightarrow> nat option \<Rightarrow> bool" where
  "movesOntoBookmark s item choice =
     (case item of
        None \<Rightarrow> False
      | Some bm \<Rightarrow>
          (case showQuickPick (filter (\<lambda>g. g \<noteq> groupName bm) (Object_keys (bookmarkGroups s)))
                  choice of
             None \<Rightarrow> False
           | Some target \<Rightarrow>
               filter (sameLocation (uri bm) (line bm) (groupName bm)) (bookmarks s) \<noteq> [] \<and>
               filter (sameLocation (uri bm) (line bm) target) (bookmarks s) \<noteq> []))"

definition landingLine :: "string \<Rightarrow> contentChange \<Rightarrow> bookmark \<Rightarrow> nat" where
  "landingLine docUri change bm =
     (if uri bm = docUri \<and> startLine change < line bm
      then nat (max 0 (int (line bm) + lineDelta change))
      else line bm)"

definition mergesBookmarks :: "string \<Rightarrow> contentChange \<Rightarrow> bookmark list \<Rightarrow> bool" where
  "mergesBookmarks docUri change bms =
     (\<not> distinct (map (\<lambda>bm. (uri bm, landingLine docUri change bm, groupName bm)) bms))"

fun mergingChanges :: "string \<Rightarrow> contentChange list \<Rightarrow> bookmark list \<Rightarrow> bool" where
  "mergingChanges docUri [] bms = False"
| "mergingChanges docUri (change # changes) bms =
     (mergesBookmarks docUri change bms \<or>
      mergingChanges docUri changes (applyChange docUri change bms))"

fun collides :: "command \<Rightarrow> state \<Rightarrow> bool" where
  "collides (Move item choice) s = movesOntoBookmark s item choice"
| "collides (Edit docUri changes) s = mergingChanges docUri changes (bookmarks s)"
| "collides c s = False"

text \<open>A sequence of commands in which some command, in the state it runs in, collides.\<close>

fun collidingRun :: "(env \<times> command) list \<Rightarrow> state \<Rightarrow> bool" where
  "collidingRun [] s = False"
| "collidingRun ((env, c) # cs) s = (collides c s \<or> collidingRun cs (exec env c s))"

text \<open>
  What the sort needs of the host's string comparison to produce one total order:
  it is zero on equal strings only, antisymmetric and transitive.
\<close>

definition totalOrderCompare :: "(string \<Rightarrow> string \<Rightarrow> int) \<Rightarrow> bool" where
  "totalOrderCompare cmp =
     ((\<forall>a b. (cmp a b = 0) = (a = b)) \<and>
      (\<forall>a b. (cmp a b < 0) = (0 < cmp b a)) \<and>
      (\<forall>a b c. cmp a b < 0 \<and> cmp b c < 0 \<longrightarrow> cmp a c < 0))"

text \<open>The order of two bookmarks: file identifier first, then line number.\<close>

definition bookmarkBefore :: "env \<Rightarrow> bookmark \<Rightarrow> bookmark \<Rightarrow> bool" where
  "bookmarkBefore env a b =
     (localeCompare env (uri a) (uri b) < 0 \<or> (uri a = uri b \<and> line a \<le> line b))"

definition cursorAt :: "bookmark \<Rightarrow> cursor" where
  "cursorAt b = \<lparr>cursorUri = uri b, cursorLine = line b, cursorText = content b\<rparr>"

section \<open>Example inputs\<close>

text \<open>
  Modelled from the spec: the host's \<open>String.prototype.localeCompare\<close> is not part of
  the repository; the examples take the lexicographic ordering of the character codes
  for it, the "lexicographic string ordering" of the navigator's contract.
\<close>

fun lexCompare :: "string \<Rightarrow> string \<Rightarrow> int" where
  "lexCompare [] [] = 0"
| "lexCompare [] (y # ys) = - 1"
| "lexCompare (x # xs) [] = 1"
| "lexCompare (x # xs) (y # ys) =
     (if (of_char x :: nat) < of_char y then - 1
      else if (of_char y :: nat) < of_char x then 1
      else lexCompare xs ys)"

definition exampleEnv :: env where
  "exampleEnv =
     \<lparr>defaultColors = [''#fff59d'', ''#aed581'', ''#ba68c8'', ''#4fc3f7''],
      visibleTextEditors = [(''fileA'', 100)],
      randomHex = (\<lambda>n. ''e4a3f5''),
      alphaHex = ''4d'',
      localeCompare = lexCompare\<rparr>"

definition mark :: "string \<Rightarrow> nat \<Rightarrow> string \<Rightarrow> bookmark" where
  "mark u l g = \<lparr>uri = u, line = l, content = ''text'', groupName = g\<rparr>"

definition store :: "bookmark list \<Rightarrow> groups \<Rightarrow> string \<Rightarrow> state" where
  "store bms groups active =
     \<lparr>bookmarks = bms, bookmarkGroups = groups, activeGroup = active,
      decorationTypes = {}, draws = 0\<rparr>"

text \<open>A store with the single group "Default", active, and no bookmarks.\<close>

definition freshStore :: state where
  "freshStore = store [] [(''Default'', Str ''#fff59d'')] ''Default''"

text \<open>
  A session: bookmark line 3 of fileA, create the group "Tests" (which becomes active),
  bookmark line 5 there, insert a line at the top of fileA, move the first bookmark to
  "Tests", rename "Tests" to "Specs", delete "Default".
\<close>

definition exampleSteps :: "(env \<times> command) list" where
  "exampleSteps =
     [(exampleEnv, Toggle (Some \<lparr>cursorUri = ''fileA'', cursorLine = 3, cursorText = ''text''\<rparr>)),
      (exampleEnv, Create (Some ''Tests'')),
      (exampleEnv, Toggle (Some \<lparr>cursorUri = ''fileA'', cursorLine = 5, cursorText = ''text''\<rparr>)),
      (exampleEnv, Edit ''fileA''
         [\<lparr>startLine = 0, endLine = 0, newText = [CHR ''x'', CHR 0x0A, CHR ''y'']\<rparr>]),
      (exampleEnv, Move (Some (mark ''fileA'' 4 ''Default'')) (Some 0)),
      (exampleEnv, Rename (Some ''Tests'') (Some ''Specs'')),
      (exampleEnv, Delete (Some ''Default'') (Some ''Yes''))]"

text \<open>Bookmarks at lines 5, 10 and 20 of one file, and an edit replacing line 7 by four lines.\<close>

definition editStore :: state where
  "editStore =
     store [mark ''fileA'' 5 ''Default'', mark ''fileA'' 10 ''Default'',
            mark ''fileA'' 20 ''Default'']
       [(''Default'', Str ''#fff59d'')] ''Default''"

definition editChange :: contentChange where
  "editChange =
     \<lparr>startLine = 7, endLine = 7,
      newText = [CHR ''a'', CHR 0x0A, CHR ''b'', CHR 0x0A, CHR ''c'', CHR 0x0A, CHR ''d'']\<rparr>"

text \<open>Three bookmarks of the active group in two files, stored out of order.\<close>

definition navStore :: state where
  "navStore =
     store [mark ''fileB'' 1 ''Default'', mark ''fileA'' 9 ''Default'',
            mark ''fileA'' 3 ''Default'', mark ''fileA'' 7 ''Tests'']
       [(''Default'', Str ''#fff59d''), (''Tests'', Str ''#aed581'')] ''Default''"

text \<open>Two groups that bookmark the same line, and a selection of lines 2 to 4 deleted.\<close>

definition twoGroupStore :: state where
  "twoGroupStore =
     store [mark ''fileA'' 3 ''Default'', mark ''fileA'' 3 ''Tests'']
       [(''Default'', Str ''#fff59d''), (''Tests'', Str ''#aed581'')] ''Default''"

definition joinStore :: state where
  "joinStore =
     store [mark ''fileA'' 2 ''Default'', mark ''fileA'' 4 ''Default'']
       [(''Default'', Str ''#fff59d'')] ''Default''"

definition joinChange :: contentChange where
  "joinChange = \<lparr>startLine = 2, endLine = 4, newText = []\<rparr>"

text \<open>A bookmark whose line was edited after it was set: the stored snapshot is stale.\<close>

definition staleStore :: state where
  "staleStore =
     store [\<lparr>uri = ''fileA'', line = 3, content = ''old text'', groupName = ''Default''\<rparr>]
       [(''Default'', Str ''#fff59d'')] ''Default''"

definition staleCursor :: cursor where
  "staleCursor = \<lparr>cursorUri = ''fileA'', cursorLine = 3, cursorText = ''new text''\<rparr>"

text \<open>A group "Tests" with three bookmarks, active, beside two other groups.\<close>

definition testsStore :: state where
  "testsStore =
     store [mark ''fileA'' 1 ''Tests'', mark ''fileA'' 2 ''Work'',
            mark ''fileB'' 5 ''Tests'', mark ''fileC'' 8 ''Tests'']
       [(''Tests'', Str ''#aed581''), (''Work'', Str ''#ba68c8''), (''Notes'', Str ''#4fc3f7'')]
       ''Tests''"

text \<open>A single group, active, owning every bookmark.\<close>

definition onlyStore :: state where
  "onlyStore =
     store [mark ''fileA'' 1 ''Tests''] [(''Tests'', Str ''#aed581'')] ''Tests''"

text \<open>Bookmarks on lines 0, 2 and 4 of one file, before lines 2 to 4 are joined.\<close>

definition tripleStore :: state where
  "tripleStore =
     store [mark ''fileA'' 0 ''Default'', mark ''fileA'' 2 ''Default'',
            mark ''fileA'' 4 ''Default'']
       [(''Default'', Str ''#fff59d'')] ''Default''"

section \<open>The group object and the decorations\<close>

lemma js_own_js_put: "js_own (js_put g k v) k' = (if k' = k then Some v else js_own g k')"
  by (induction g) auto

lemma js_own_js_delete: "js_own (js_delete g k) k' = (if k' = k then None else js_own g k')"
  by (induction g) auto

lemma js_own_None: "(js_own g k = None) = (k \<notin> fst ` set g)"
  by (induction g) (force split: if_splits)+

lemma js_own_Some: "js_own g k = Some v \<Longrightarrow> (k, v) \<in> set g"
  by (induction g) (auto split: if_splits)

lemma js_put_absent: "k \<notin> fst ` set g \<Longrightarrow> js_put g k v = g @ [(k, v)]"
  by (induction g) auto

lemma js_put_js_put: "js_put (js_put g k v) k v' = js_put g k v'"
  by (induction g) auto

lemma keys_js_put: "fst ` set (js_put g k v) = insert k (fst ` set g)"
  by (induction g) (force split: if_splits)+

lemma list_all_js_put:
  "list_all P g \<Longrightarrow> P (k, v) \<Longrightarrow> list_all P (js_put g k v)"
  by (induction g) auto

lemma list_all_js_delete: "list_all P g \<Longrightarrow> list_all P (js_delete g k)"
  by (induction g) auto

lemma js_get_js_put: "js_get (js_put g k v) k' = (if k' = k then v else js_get g k')"
  by (simp add: js_get_def js_own_js_put)

lemma js_get_js_delete: "k' \<noteq> k \<Longrightarrow> js_get (js_delete g k) k' = js_get g k'"
  by (simp add: js_get_def js_own_js_delete)

lemma js_get_absent:
  "k \<notin> fst ` set g \<Longrightarrow> js_get g k = (if k \<in> set Object_prototype then Inherited else Undefined)"
  using js_own_None [of g k] by (simp add: js_get_def)

lemma js_get_own: "js_own g k = Some v \<Longrightarrow> js_get g k = v"
  by (simp add: js_get_def)

text \<open>An assignment where the read was falsy, or to a name other than \<open>__proto__\<close>, writes
  the own property.\<close>

lemma js_set_falsy: "\<not> truthy (js_get g k) \<Longrightarrow> js_set g k v = js_put g k v"
  by (auto simp: js_set_def js_get_def Object_prototype_def)

lemma js_set_plain: "k \<noteq> ''__proto__'' \<Longrightarrow> js_set g k v = js_put g k v"
  by (simp add: js_set_def)

lemma set_Object_keys: "set (Object_keys g) = fst ` set g"
  by (auto simp: Object_keys_def)

lemma Object_keys_Nil: "(Object_keys g = []) = (g = [])"
  using set_Object_keys [of g] by (cases g) auto

lemma truthy_hslToHex [simp]: "truthy (Str (hslToHex env n))"
  by (simp add: hslToHex_def)

lemma withAlpha_Str [simp]: "withAlpha env (Str h) = Inr (CHR ''#'' # removeFirst (CHR ''#'') h @ alphaHex env)"
  by (simp add: withAlpha_def)

text \<open>
  \<open>ensureDecorationForGroup\<close> leaves the bookmarks and the active group alone, and
  writes a colour only where the read of the group is falsy.
\<close>

lemma bookmarks_ensureDecorationForGroup [simp]:
  "bookmarks (stateOf (ensureDecorationForGroup env grp f s)) = bookmarks s"
  by (simp add: ensureDecorationForGroup_def Let_def split: sum.splits)

lemma activeGroup_ensureDecorationForGroup [simp]:
  "activeGroup (stateOf (ensureDecorationForGroup env grp f s)) = activeGroup s"
  by (simp add: ensureDecorationForGroup_def Let_def split: sum.splits)

lemma groups_ensureDecorationForGroup:
  "bookmarkGroups (stateOf (ensureDecorationForGroup env grp f s)) =
     (if truthy (js_get (bookmarkGroups s) grp) then bookmarkGroups s
      else js_put (bookmarkGroups s) grp (Str (hslToHex env (draws s))))"
  by (simp add: ensureDecorationForGroup_def Let_def js_set_falsy split: sum.splits)

lemma ensureDecorationForGroup_Str:
  "js_get (bookmarkGroups s) grp = Str c \<Longrightarrow> c \<noteq> [] \<Longrightarrow>
   ensureDecorationForGroup env grp True s
     = Inr (s\<lparr>decorationTypes := insert grp (decorationTypes s)\<rparr>)"
  by (simp add: ensureDecorationForGroup_def Let_def)

text \<open>What holds before and is kept by each call of \<open>ensureDecorationForGroup\<close> in
  the loops holds after them, whether or not an exception ends them.\<close>

lemma decorateBookmarks_invariant:
  assumes step: "\<And>b t. b \<in> set bs \<Longrightarrow> P t \<Longrightarrow>
                   P (stateOf (ensureDecorationForGroup env (groupName b) False t))"
    and "P s"
  shows "P (stateOf (decorateBookmarks env ed bs s))"
  using assms
proof (induction bs arbitrary: s)
  case Nil
  then show ?case by simp
next
  case (Cons b bs)
  have rest: "P (stateOf (decorateBookmarks env ed bs t))" if "P t" for t
    using Cons.IH [of t] Cons.prems(1) that by simp
  show ?case
  proof (cases "uri b = fst ed \<and> line b < snd ed \<and> groupName b \<notin> decorationTypes s")
    case False
    with rest [OF Cons.prems(2)] show ?thesis by auto
  next
    case True
    have e: "P (stateOf (ensureDecorationForGroup env (groupName b) False s))"
      using Cons.prems by simp
    show ?thesis
    proof (cases "ensureDecorationForGroup env (groupName b) False s")
      case (Inl t)
      with e True show ?thesis by simp
    next
      case (Inr s')
      with e have "P s'" by simp
      from rest [OF this] Inr True show ?thesis by simp
    qed
  qed
qed

lemma forEachEditor_invariant:
  assumes step: "\<And>b t. P t \<Longrightarrow> b \<in> set (bookmarks t) \<Longrightarrow>
                   P (stateOf (ensureDecorationForGroup env (groupName b) False t))"
    and "P s"
  shows "P (stateOf (forEachEditor env eds s))"
  using assms(2)
proof (induction eds arbitrary: s)
  case Nil
  then show ?case by simp
next
  case (Cons ed eds)
  have u: "P (stateOf (updateDecorations env ed s))"
    unfolding updateDecorations_def
  proof (rule decorateBookmarks_invariant [where P = "\<lambda>t. P t \<and> bookmarks t = bookmarks s", THEN conjunct1])
    fix b and t :: state assume "b \<in> set (bookmarks s)" and "P t \<and> bookmarks t = bookmarks s"
    then show "P (stateOf (ensureDecorationForGroup env (groupName b) False t)) \<and>
               bookmarks (stateOf (ensureDecorationForGroup env (groupName b) False t)) = bookmarks s"
      using step [of t b] by simp
  next
    show "P s \<and> bookmarks s = bookmarks s" using Cons.prems by simp
  qed
  show ?case
  proof (cases "updateDecorations env ed s")
    case (Inl t)
    with u show ?thesis by simp
  next
    case (Inr s')
    with u have "P s'" by simp
    from Cons.IH [OF this] Inr show ?thesis by simp
  qed
qed

lemma updateAllDecorations_invariant:
  assumes "\<And>b t. P t \<Longrightarrow> b \<in> set (bookmarks t) \<Longrightarrow>
             P (stateOf (ensureDecorationForGroup env (groupName b) False t))"
    and "P s"
  shows "P (stateOf (updateAllDecorations env s))"
  unfolding updateAllDecorations_def using assms by (rule forEachEditor_invariant)

lemma bookmarks_updateAllDecorations [simp]:
  "bookmarks (stateOf (updateAllDecorations env s)) = bookmarks s"
  by (rule updateAllDecorations_invariant [where P = "\<lambda>t. bookmarks t = bookmarks s"]) simp_all

lemma activeGroup_updateAllDecorations [simp]:
  "activeGroup (stateOf (updateAllDecorations env s)) = activeGroup s"
  by (rule updateAllDecorations_invariant [where P = "\<lambda>t. activeGroup t = activeGroup s"]) simp_all

lemma truthy_kept_updateAllDecorations:
  assumes "truthy (js_get (bookmarkGroups s) k)"
  shows "js_get (bookmarkGroups (stateOf (updateAllDecorations env s))) k = js_get (bookmarkGroups s) k"
proof (rule updateAllDecorations_invariant
         [where P = "\<lambda>t. js_get (bookmarkGroups t) k = js_get (bookmarkGroups s) k"])
  fix b and t :: state assume "js_get (bookmarkGroups t) k = js_get (bookmarkGroups s) k"
  with assms show "js_get (bookmarkGroups (stateOf (ensureDecorationForGroup env (groupName b) False t))) k
      = js_get (bookmarkGroups s) k"
    by (auto simp: groups_ensureDecorationForGroup js_get_js_put)
qed simp

lemma groups_updateAllDecorations_grouped:
  assumes "bookmarksGrouped s"
  shows "bookmarkGroups (stateOf (updateAllDecorations env s)) = bookmarkGroups s"
proof -
  have "bookmarkGroups (stateOf (updateAllDecorations env s)) = bookmarkGroups s \<and>
        bookmarks (stateOf (updateAllDecorations env s)) = bookmarks s"
  proof (rule updateAllDecorations_invariant
         [where P = "\<lambda>t. bookmarkGroups t = bookmarkGroups s \<and> bookmarks t = bookmarks s"])
    fix b and t :: state assume "bookmarkGroups t = bookmarkGroups s \<and> bookmarks t = bookmarks s"
      and "b \<in> set (bookmarks t)"
    with assms show "bookmarkGroups (stateOf (ensureDecorationForGroup env (groupName b) False t))
          = bookmarkGroups s \<and>
        bookmarks (stateOf (ensureDecorationForGroup env (groupName b) False t)) = bookmarks s"
      by (auto simp: groups_ensureDecorationForGroup bookmarksGrouped_def list_all_iff)
  qed simp
  then show ?thesis by simp
qed

lemma bookmarksOwned_grouped: "bookmarksOwned s \<Longrightarrow> bookmarksGrouped s"
  by (auto simp: bookmarksOwned_def bookmarksGrouped_def list_all_iff js_get_def
      split: option.splits)

lemma groups_updateAllDecorations_owned:
  "bookmarksOwned s \<Longrightarrow> bookmarkGroups (stateOf (updateAllDecorations env s)) = bookmarkGroups s"
  by (rule groups_updateAllDecorations_grouped) (rule bookmarksOwned_grouped)

lemma groups_updateAllDecorations_no_bookmarks:
  "bookmarks s = [] \<Longrightarrow> bookmarkGroups (stateOf (updateAllDecorations env s)) = bookmarkGroups s"
  by (rule groups_updateAllDecorations_grouped) (simp add: bookmarksGrouped_def)

lemma keys_updateAllDecorations:
  "fst ` set (bookmarkGroups s) \<subseteq> fst ` set (bookmarkGroups (stateOf (updateAllDecorations env s)))"
proof (rule updateAllDecorations_invariant
         [where P = "\<lambda>t. fst ` set (bookmarkGroups s) \<subseteq> fst ` set (bookmarkGroups t)"])
  fix b and t :: state assume "fst ` set (bookmarkGroups s) \<subseteq> fst ` set (bookmarkGroups t)"
  then show "fst ` set (bookmarkGroups s)
      \<subseteq> fst ` set (bookmarkGroups (stateOf (ensureDecorationForGroup env (groupName b) False t)))"
    by (auto simp: groups_ensureDecorationForGroup keys_js_put)
qed simp

lemma untouched_updateAllDecorations:
  assumes "list_all (\<lambda>b. groupName b \<noteq> k) (bookmarks s)"
  shows "js_own (bookmarkGroups (stateOf (updateAllDecorations env s))) k = js_own (bookmarkGroups s) k"
proof -
  have "js_own (bookmarkGroups (stateOf (updateAllDecorations env s))) k = js_own (bookmarkGroups s) k \<and>
        bookmarks (stateOf (updateAllDecorations env s)) = bookmarks s"
  proof (rule updateAllDecorations_invariant
         [where P = "\<lambda>t. js_own (bookmarkGroups t) k = js_own (bookmarkGroups s) k \<and>
                          bookmarks t = bookmarks s"])
    fix b and t :: state assume "js_own (bookmarkGroups t) k = js_own (bookmarkGroups s) k \<and> bookmarks t = bookmarks s"
      and "b \<in> set (bookmarks t)"
    with assms show "js_own (bookmarkGroups (stateOf (ensureDecorationForGroup env (groupName b) False t))) k
          = js_own (bookmarkGroups s) k \<and>
        bookmarks (stateOf (ensureDecorationForGroup env (groupName b) False t)) = bookmarks s"
      by (auto simp: groups_ensureDecorationForGroup js_own_js_put list_all_iff)
  qed simp
  then show ?thesis by simp
qed

section \<open>Edits shift the bookmarks below them\<close>

text \<open>
  C2. One document change to file \<open>F\<close>, whose range spans \<open>oldCount\<close> lines and whose
  replacement text has \<open>newCount\<close> segments between newlines, moves every bookmark of
  \<open>F\<close> on a line strictly below the start line of the change by
  \<open>delta = newCount - oldCount\<close>, not below line 0, and leaves every bookmark at or
  above the start line, and every bookmark of another file, as it was.
\<close>

theorem edit_shifts_bookmarks_below_start:
  assumes "oldCount = int (endLine change) - int (startLine change) + 1"
    and "newCount = int (length (js_split (CHR 0x0A) (newText change)))"
    and "delta = newCount - oldCount"
    and "s' = onDidChangeTextDocument env F [change] s"
  shows "length (bookmarks s') = length (bookmarks s) \<and>
         (\<forall>i < length (bookmarks s).
            bookmarks s' ! i =
              (if uri (bookmarks s ! i) = F \<and> startLine change < line (bookmarks s ! i)
               then (bookmarks s ! i)\<lparr>line := nat (max 0 (int (line (bookmarks s ! i)) + delta))\<rparr>
               else bookmarks s ! i))"
  using assms
  by (auto simp: onDidChangeTextDocument_def applyChange_def lineDelta_def Let_def)

theorem edit_shifts_bookmarks_witness:
  "(1::int) = int (endLine editChange) - int (startLine editChange) + 1 \<and>
   (4::int) = int (length (js_split (CHR 0x0A) (newText editChange))) \<and>
   bookmarks (onDidChangeTextDocument exampleEnv ''fileA'' [editChange] editStore) ! 0
     = mark ''fileA'' 5 ''Default'' \<and>
   bookmarks (onDidChangeTextDocument exampleEnv ''fileA'' [editChange] editStore) ! 1
     = mark ''fileA'' 13 ''Default'' \<and>
   bookmarks (onDidChangeTextDocument exampleEnv ''fileA'' [editChange] editStore) ! 2
     = mark ''fileA'' 23 ''Default''"
proof -
  have h1: "(1::int) = int (endLine editChange) - int (startLine editChange) + 1"
    by (simp add: editChange_def)
  have h2: "(4::int) = int (length (js_split (CHR 0x0A) (newText editChange)))"
    by (simp add: editChange_def)
  have h3: "(3::int) = 4 - 1" by simp
  note t = edit_shifts_bookmarks_below_start
             [OF h1 h2 h3 refl, of exampleEnv "''fileA''" editStore,
              THEN conjunct2, rule_format]
  have bms: "bookmarks editStore =
      [mark ''fileA'' 5 ''Default'', mark ''fileA'' 10 ''Default'', mark ''fileA'' 20 ''Default'']"
    by (simp add: editStore_def store_def)
  have "0 < length (bookmarks editStore)" by (simp add: bms)
  from t [OF this] have b0:
    "bookmarks (onDidChangeTextDocument exampleEnv ''fileA'' [editChange] editStore) ! 0
       = mark ''fileA'' 5 ''Default''"
    by (simp add: bms mark_def editChange_def)
  have "1 < length (bookmarks editStore)" by (simp add: bms)
  from t [OF this] have b1:
    "bookmarks (onDidChangeTextDocument exampleEnv ''fileA'' [editChange] editStore) ! 1
       = mark ''fileA'' 13 ''Default''"
    by (simp add: bms mark_def editChange_def)
  have "2 < length (bookmarks editStore)" by (simp add: bms)
  from t [OF this] have b2:
    "bookmarks (onDidChangeTextDocument exampleEnv ''fileA'' [editChange] editStore) ! 2
       = mark ''fileA'' 23 ''Default''"
    by (simp add: bms mark_def editChange_def)
  from h1 h2 b0 b1 b2 show ?thesis by blast
qed

section \<open>Deleting a group, refusing a rename\<close>

text \<open>The read \<open>groups[k]\<close>, property by property.\<close>

lemma js_get_Nil: "js_get [] k = (if k \<in> set Object_prototype then Inherited else Undefined)"
  by (simp add: js_get_def)

lemma js_get_Cons: "js_get ((k', v) # g) k = (if k' = k then v else js_get g k)"
  by (simp add: js_get_def)

lemmas js_get_simps = js_get_Nil js_get_Cons Object_prototype_def

text \<open>
  C6. Deleting a group removes exactly the bookmarks of that group and keeps every other
  bookmark as it is, in order. If the deleted group was the active one, the active group
  becomes the first key that \<open>Object.keys\<close> lists for the remaining groups, or, when
  none remains, a group "Default" that is created; otherwise the active group stays.
\<close>

theorem delete_group_cascade:
  assumes "name \<noteq> []"
    and "s' = snd (bm_deleteGroup env (Some name) (Some ''Yes'') s)"
  shows "bookmarks s' = filter (\<lambda>b. groupName b \<noteq> name) (bookmarks s) \<and>
         (activeGroup s \<noteq> name \<longrightarrow> activeGroup s' = activeGroup s) \<and>
         (activeGroup s = name \<longrightarrow>
            (case Object_keys (js_delete (bookmarkGroups s) name) of
               [] \<Rightarrow> activeGroup s' = ''Default'' \<and>
                     ''Default'' \<in> set (Object_keys (bookmarkGroups s'))
             | k # _ \<Rightarrow> activeGroup s' = k))"
proof -
  let ?g = "js_delete (bookmarkGroups s) name"
  let ?s1 = "s\<lparr>bookmarkGroups := ?g,
                bookmarks := filter (\<lambda>b. groupName b \<noteq> name) (bookmarks s),
                decorationTypes := decorationTypes s - {name}\<rparr>"
  let ?s2 = "if activeGroup s = name
             then (case Object_keys ?g of
                     [] \<Rightarrow> ?s1\<lparr>bookmarkGroups := js_set ?g ''Default'' (firstDefaultColor env),
                               activeGroup := ''Default''\<rparr>
                   | k # _ \<Rightarrow> ?s1\<lparr>activeGroup := k\<rparr>)
             else ?s1"
  have s': "s' = stateOf (updateAllDecorations env ?s2)"
    using assms by (simp add: bm_deleteGroup_def Let_def)
  have bms: "bookmarks s' = filter (\<lambda>b. groupName b \<noteq> name) (bookmarks s)"
    by (simp add: s' split: list.splits)
  have other: "activeGroup s \<noteq> name \<longrightarrow> activeGroup s' = activeGroup s"
    by (simp add: s')
  have act: "activeGroup s = name \<longrightarrow>
            (case Object_keys ?g of
               [] \<Rightarrow> activeGroup s' = ''Default'' \<and>
                     ''Default'' \<in> set (Object_keys (bookmarkGroups s'))
             | k # _ \<Rightarrow> activeGroup s' = k)"
  proof (intro impI)
    assume a: "activeGroup s = name"
    show "case Object_keys ?g of
               [] \<Rightarrow> activeGroup s' = ''Default'' \<and>
                     ''Default'' \<in> set (Object_keys (bookmarkGroups s'))
             | k # _ \<Rightarrow> activeGroup s' = k"
    proof (cases "Object_keys ?g")
      case Nil
      let ?s3 = "?s1\<lparr>bookmarkGroups := js_set ?g ''Default'' (firstDefaultColor env),
                      activeGroup := ''Default''\<rparr>"
      have e: "s' = stateOf (updateAllDecorations env ?s3)" using a Nil by (simp add: s')
      have "''Default'' \<in> fst ` set (bookmarkGroups ?s3)"
        by (simp add: js_set_plain keys_js_put)
      with keys_updateAllDecorations [of ?s3 env]
      have "''Default'' \<in> fst ` set (bookmarkGroups s')" unfolding e by blast
      then show ?thesis using Nil e by (simp add: set_Object_keys)
    next
      case (Cons k ks)
      then show ?thesis using a by (simp add: s')
    qed
  qed
  from bms other act show ?thesis by blast
qed

theorem delete_group_cascade_witness:
  "''Tests'' \<noteq> [] \<and>
   bookmarks (snd (bm_deleteGroup exampleEnv (Some ''Tests'') (Some ''Yes'') testsStore))
     = [mark ''fileA'' 2 ''Work''] \<and>
   activeGroup testsStore = ''Tests'' \<and>
   Object_keys (js_delete (bookmarkGroups testsStore) ''Tests'') = [''Work'', ''Notes''] \<and>
   activeGroup (snd (bm_deleteGroup exampleEnv (Some ''Tests'') (Some ''Yes'') testsStore))
     = ''Work''"
proof -
  have n: "''Tests'' \<noteq> []" by simp
  have k: "Object_keys (js_delete (bookmarkGroups testsStore) ''Tests'') = [''Work'', ''Notes'']"
    by (simp add: testsStore_def store_def Object_keys_def is_array_index_def is_digit_def)
  have a: "activeGroup testsStore = ''Tests''" by (simp add: testsStore_def store_def)
  have f: "filter (\<lambda>b. groupName b \<noteq> ''Tests'') (bookmarks testsStore) = [mark ''fileA'' 2 ''Work'']"
    by (simp add: testsStore_def store_def mark_def)
  from delete_group_cascade [OF n refl, of exampleEnv testsStore] n k a f
  show ?thesis by simp
qed

text \<open>
  C8, as the code has it. A rename to a different name that already is a group with a
  colour is refused with the warning "Exists", and every rename that shows a message
  leaves the whole state, with the group object, the bookmarks and the active group, as
  it was. Whether \<open>old\<close> is a group is not checked.
\<close>

theorem rename_refused_leaves_state:
  "(old \<noteq> [] \<and> newName \<noteq> [] \<and> newName \<noteq> old \<and> truthy (js_get (bookmarkGroups s) newName)
      \<longrightarrow> bm_renameGroup env (Some old) (Some newName) s = (Some (Warning ''Exists''), s)) \<and>
   (fst (bm_renameGroup env item input s) \<noteq> None
      \<longrightarrow> snd (bm_renameGroup env item input s) = s)"
  by (auto simp: bm_renameGroup_def Let_def split: option.splits if_splits sum.splits)

theorem rename_refused_witness:
  "''Tests'' \<noteq> [] \<and> ''Work'' \<noteq> [] \<and> ''Work'' \<noteq> ''Tests'' \<and>
   truthy (js_get (bookmarkGroups testsStore) ''Work'') \<and>
   bm_renameGroup exampleEnv (Some ''Tests'') (Some ''Work'') testsStore
     = (Some (Warning ''Exists''), testsStore)"
proof -
  have h: "''Tests'' \<noteq> [] \<and> ''Work'' \<noteq> [] \<and> ''Work'' \<noteq> ''Tests'' \<and>
           truthy (js_get (bookmarkGroups testsStore) ''Work'')"
    by (simp add: testsStore_def store_def js_get_simps)
  from rename_refused_leaves_state [of "''Tests''" "''Work''" testsStore exampleEnv, THEN conjunct1, rule_format, OF h] h
  show ?thesis by blast
qed

theorem rename_missing_group_counterexample:
  "js_get (bookmarkGroups freshStore) ''Ghost'' = Undefined \<and>
   fst (bm_renameGroup exampleEnv (Some ''Ghost'') (Some ''New'') freshStore) = None \<and>
   bookmarkGroups freshStore = [(''Default'', Str ''#fff59d'')] \<and>
   bookmarkGroups (snd (bm_renameGroup exampleEnv (Some ''Ghost'') (Some ''New'') freshStore))
     = [(''Default'', Str ''#fff59d''), (''New'', Str ''#e4a3f5'')]"
  by (simp add: bm_renameGroup_def freshStore_def store_def Let_def exampleEnv_def
      ensureDecorationForGroup_def hslToHex_def updateAllDecorations_def updateDecorations_def
      js_get_simps js_set_def)

text \<open>
  C9. After the only group is deleted, where it was the active group and owned every
  bookmark, the group object holds exactly one group, "Default", with the first
  configured default colour, "Default" is the active group, and no bookmark is left.
\<close>

theorem delete_only_group_recreates_default:
  assumes "name \<noteq> []"
    and "bookmarkGroups s = [(name, c)]"
    and "activeGroup s = name"
    and "bookmarksOwned s"
    and "defaultColors env = d # ds"
    and "s' = snd (bm_deleteGroup env (Some name) (Some ''Yes'') s)"
  shows "bookmarkGroups s' = [(''Default'', Str d)] \<and> activeGroup s' = ''Default'' \<and>
         bookmarks s' = []"
proof -
  have own: "list_all (\<lambda>b. groupName b = name) (bookmarks s)"
    using assms(2,4)
    by (auto simp: bookmarksOwned_def list_all_iff split: if_splits option.splits)
  then have rem: "filter (\<lambda>b. groupName b \<noteq> name) (bookmarks s) = []"
    by (auto simp: list_all_iff filter_empty_conv)
  have "bookmarkGroups s' = [(''Default'', Str d)]"
    using assms rem
    by (simp add: bm_deleteGroup_def Let_def Object_keys_def firstDefaultColor_def
        groups_updateAllDecorations_no_bookmarks js_set_plain)
  moreover have "activeGroup s' = ''Default''"
    using assms by (simp add: bm_deleteGroup_def Let_def Object_keys_def)
  moreover have "bookmarks s' = []"
    using assms rem by (simp add: bm_deleteGroup_def Let_def Object_keys_def)
  ultimately show ?thesis by blast
qed

theorem delete_only_group_witness:
  "''Tests'' \<noteq> [] \<and> bookmarkGroups onlyStore = [(''Tests'', Str ''#aed581'')] \<and>
   activeGroup onlyStore = ''Tests'' \<and> bookmarksOwned onlyStore \<and>
   defaultColors exampleEnv = ''#fff59d'' # [''#aed581'', ''#ba68c8'', ''#4fc3f7''] \<and>
   bookmarkGroups (snd (bm_deleteGroup exampleEnv (Some ''Tests'') (Some ''Yes'') onlyStore))
     = [(''Default'', Str ''#fff59d'')] \<and>
   activeGroup (snd (bm_deleteGroup exampleEnv (Some ''Tests'') (Some ''Yes'') onlyStore))
     = ''Default''"
proof -
  have h1: "''Tests'' \<noteq> []" by simp
  have h2: "bookmarkGroups onlyStore = [(''Tests'', Str ''#aed581'')]"
    by (simp add: onlyStore_def store_def)
  have h3: "activeGroup onlyStore = ''Tests''" by (simp add: onlyStore_def store_def)
  have h4: "bookmarksOwned onlyStore"
    by (simp add: onlyStore_def store_def bookmarksOwned_def mark_def)
  have h5: "defaultColors exampleEnv = ''#fff59d'' # [''#aed581'', ''#ba68c8'', ''#4fc3f7'']"
    by (simp add: exampleEnv_def)
  from delete_only_group_recreates_default [OF h1 h2 h3 h4 h5 refl] h1 h2 h3 h4 h5
  show ?thesis by blast
qed

section \<open>Renaming a group, creating a group\<close>

lemma keys_untouched_updateAllDecorations:
  assumes "list_all (\<lambda>b. groupName b \<noteq> k) (bookmarks s)"
  shows "(k \<in> set (Object_keys (bookmarkGroups (stateOf (updateAllDecorations env s)))))
           = (k \<in> set (Object_keys (bookmarkGroups s)))"
  using untouched_updateAllDecorations [OF assms, of env]
    js_own_None [of "bookmarkGroups (stateOf (updateAllDecorations env s))" k]
    js_own_None [of "bookmarkGroups s" k]
  by (simp add: set_Object_keys)

text \<open>
  C7. A rename of group \<open>old\<close> to \<open>newName\<close> that is carried out retargets every bookmark
  of \<open>old\<close> to \<open>newName\<close> and changes no other bookmark; the colour that \<open>old\<close> had is
  the colour of \<open>newName\<close> afterwards, and \<open>old\<close> is no longer a key of the group
  object; an active group \<open>old\<close> becomes \<open>newName\<close>, any other active group stays.
\<close>

theorem rename_group_cascade:
  assumes "old \<noteq> []" and "newName \<noteq> []" and "newName \<noteq> old"
    and "\<not> truthy (js_get (bookmarkGroups s) newName)"
    and "js_get (bookmarkGroups s) old = Str c" and "c \<noteq> []"
    and "s' = snd (bm_renameGroup env (Some old) (Some newName) s)"
  shows "bookmarks s' =
           map (\<lambda>b. if groupName b = old then b\<lparr>groupName := newName\<rparr> else b) (bookmarks s) \<and>
         js_get (bookmarkGroups s') newName = Str c \<and>
         old \<notin> set (Object_keys (bookmarkGroups s')) \<and>
         activeGroup s' = (if activeGroup s = old then newName else activeGroup s)"
proof -
  let ?g = "js_put (js_delete (bookmarkGroups s) old) newName (Str c)"
  let ?bms = "map (\<lambda>b. if groupName b = old then b\<lparr>groupName := newName\<rparr> else b) (bookmarks s)"
  let ?s1 = "s\<lparr>bookmarkGroups := ?g, bookmarks := ?bms,
                decorationTypes := decorationTypes s - {old}\<rparr>"
  let ?s2 = "?s1\<lparr>decorationTypes := insert newName (decorationTypes ?s1)\<rparr>"
  let ?s3 = "if activeGroup ?s2 = old then ?s2\<lparr>activeGroup := newName\<rparr> else ?s2"
  have falsy: "\<not> truthy (js_get (js_delete (bookmarkGroups s) old) newName)"
    using assms(3,4) by (simp add: js_get_js_delete)
  have set: "js_set (js_delete (bookmarkGroups s) old) newName (Str c) = ?g"
    using falsy by (rule js_set_falsy)
  have col: "js_get (bookmarkGroups ?s1) newName = Str c" by (simp add: js_get_js_put)
  have e: "ensureDecorationForGroup env newName True ?s1 = Inr ?s2"
    using ensureDecorationForGroup_Str [OF col assms(6), of env] by simp
  have s': "s' = stateOf (updateAllDecorations env ?s3)"
    using assms(1,2,3,4,7) by (simp add: bm_renameGroup_def Let_def assms(5) set e)
  have g3: "bookmarkGroups ?s3 = ?g" by simp
  have b3: "bookmarks ?s3 = ?bms" by simp
  have bms: "bookmarks s' = ?bms" by (simp add: s')
  have "truthy (js_get (bookmarkGroups ?s3) newName)"
    using assms(6) by (simp only: g3) (simp add: js_get_js_put)
  from truthy_kept_updateAllDecorations [OF this, of env]
  have new: "js_get (bookmarkGroups s') newName = Str c"
    unfolding s' by (simp only: g3) (simp add: js_get_js_put)
  have "list_all (\<lambda>b. groupName b \<noteq> old) (bookmarks ?s3)"
    using assms(3) by (simp only: b3) (auto simp: list_all_iff)
  from keys_untouched_updateAllDecorations [OF this, of env]
  have gone: "old \<notin> set (Object_keys (bookmarkGroups s'))"
    unfolding s' using assms(3) js_own_None [of ?g old]
    by (simp only: g3 set_Object_keys) (simp add: js_own_js_put js_own_js_delete)
  have act: "activeGroup s' = (if activeGroup s = old then newName else activeGroup s)"
    by (simp add: s')
  from bms new gone act show ?thesis by blast
qed

theorem rename_group_cascade_witness:
  "''Tests'' \<noteq> [] \<and> ''Specs'' \<noteq> [] \<and> ''Specs'' \<noteq> ''Tests'' \<and>
   \<not> truthy (js_get (bookmarkGroups testsStore) ''Specs'') \<and>
   js_get (bookmarkGroups testsStore) ''Tests'' = Str ''#aed581'' \<and>
   bookmarks (snd (bm_renameGroup exampleEnv (Some ''Tests'') (Some ''Specs'') testsStore)) =
     [mark ''fileA'' 1 ''Specs'', mark ''fileA'' 2 ''Work'',
      mark ''fileB'' 5 ''Specs'', mark ''fileC'' 8 ''Specs''] \<and>
   js_get (bookmarkGroups (snd (bm_renameGroup exampleEnv (Some ''Tests'') (Some ''Specs'') testsStore)))
     ''Specs'' = Str ''#aed581'' \<and>
   activeGroup (snd (bm_renameGroup exampleEnv (Some ''Tests'') (Some ''Specs'') testsStore))
     = ''Specs''"
proof -
  have h1: "''Tests'' \<noteq> []" and h2: "''Specs'' \<noteq> []" and h3: "''Specs'' \<noteq> ''Tests''"
    by simp_all
  have h4: "\<not> truthy (js_get (bookmarkGroups testsStore) ''Specs'')"
    by (simp add: testsStore_def store_def js_get_simps)
  have h5: "js_get (bookmarkGroups testsStore) ''Tests'' = Str ''#aed581''"
    by (simp add: testsStore_def store_def js_get_simps)
  have h6: "''#aed581'' \<noteq> []" by simp
  have b: "map (\<lambda>b. if groupName b = ''Tests'' then b\<lparr>groupName := ''Specs''\<rparr> else b)
             (bookmarks testsStore) =
           [mark ''fileA'' 1 ''Specs'', mark ''fileA'' 2 ''Work'',
            mark ''fileB'' 5 ''Specs'', mark ''fileC'' 8 ''Specs'']"
    by (simp add: testsStore_def store_def mark_def)
  have a: "activeGroup testsStore = ''Tests''" by (simp add: testsStore_def store_def)
  from rename_group_cascade [OF h1 h2 h3 h4 h5 h6 refl, of exampleEnv] h4 h5 b a
  show ?thesis by simp
qed

text \<open>
  A name of a member of \<open>Object.prototype\<close> reads as truthy in a group object that has
  no such group: a rename to \<open>toString\<close> and the creation of \<open>constructor\<close> are
  refused.
\<close>

lemma inherited_names_refused:
  "bm_renameGroup exampleEnv (Some ''Tests'') (Some ''toString'') testsStore
     = (Some (Warning ''Exists''), testsStore)"
  "bm_createGroup exampleEnv (Some ''constructor'') freshStore
     = (Some (Warning ''Group already exists''), freshStore)"
  by (simp_all add: bm_renameGroup_def bm_createGroup_def testsStore_def freshStore_def
      store_def js_get_simps)

text \<open>
  C10. A \<open>bm.createGroup\<close> that is carried out makes the new group the active group,
  whatever the active group was, and gives it a freshly generated colour; the bookmarks
  stay. In a store whose bookmarks all belong to groups with a colour, the group object
  gains exactly this one entry, after the others.
\<close>

theorem create_group_becomes_active:
  assumes "name \<noteq> []"
    and "\<not> truthy (js_get (bookmarkGroups s) name)"
    and "s' = snd (bm_createGroup env (Some name) s)"
  shows "activeGroup s' = name \<and>
         js_get (bookmarkGroups s') name = Str (hslToHex env (draws s)) \<and>
         bookmarks s' = bookmarks s \<and>
         (bookmarksOwned s \<and> name \<notin> fst ` set (bookmarkGroups s) \<longrightarrow>
            bookmarkGroups s' = bookmarkGroups s @ [(name, Str (hslToHex env (draws s)))])"
proof -
  let ?col = "Str (hslToHex env (draws s))"
  let ?g = "js_put (bookmarkGroups s) name ?col"
  let ?s1 = "s\<lparr>bookmarkGroups := ?g, draws := Suc (draws s)\<rparr>"
  let ?s3 = "?s1\<lparr>decorationTypes := insert name (decorationTypes ?s1), activeGroup := name\<rparr>"
  have set: "js_set (bookmarkGroups s) name ?col = ?g"
    using assms(2) by (rule js_set_falsy)
  have col1: "js_get (bookmarkGroups ?s1) name = Str (hslToHex env (draws s))"
    by (simp add: js_get_js_put)
  have ne: "hslToHex env (draws s) \<noteq> []" by (simp add: hslToHex_def)
  have e: "ensureDecorationForGroup env name True ?s1
             = Inr (?s1\<lparr>decorationTypes := insert name (decorationTypes ?s1)\<rparr>)"
    using ensureDecorationForGroup_Str [OF col1 ne, of env] by simp
  have s': "s' = stateOf (updateAllDecorations env ?s3)"
    using assms by (simp add: bm_createGroup_def Let_def set e)
  have g3: "bookmarkGroups ?s3 = ?g" by simp
  have b3: "bookmarks ?s3 = bookmarks s" by simp
  have act: "activeGroup s' = name" by (simp add: s')
  have bms: "bookmarks s' = bookmarks s" by (simp add: s')
  have "truthy (js_get (bookmarkGroups ?s3) name)"
    by (simp only: g3) (simp add: js_get_js_put hslToHex_def)
  from truthy_kept_updateAllDecorations [OF this, of env]
  have col: "js_get (bookmarkGroups s') name = ?col"
    unfolding s' by (simp only: g3) (simp add: js_get_js_put)
  have ex: "bookmarkGroups s' = bookmarkGroups s @ [(name, ?col)]"
    if own: "bookmarksOwned s" and new: "name \<notin> fst ` set (bookmarkGroups s)"
  proof -
    have "list_all (\<lambda>b. case js_own ?g (groupName b) of None \<Rightarrow> False | Some v \<Rightarrow> truthy v)
            (bookmarks s)"
      using own new js_own_None [of "bookmarkGroups s" name]
      by (auto simp: bookmarksOwned_def list_all_iff js_own_js_put split: option.splits)
    then have "bookmarksOwned ?s3"
      unfolding bookmarksOwned_def by (simp only: g3 b3)
    from groups_updateAllDecorations_owned [OF this, of env]
    show ?thesis unfolding s' using new by (simp only: g3) (simp add: js_put_absent)
  qed
  from act col bms ex show ?thesis by blast
qed

theorem create_group_witness:
  "''Tests'' \<noteq> [] \<and> \<not> truthy (js_get (bookmarkGroups freshStore) ''Tests'') \<and>
   truthy (js_get (bookmarkGroups freshStore) (activeGroup freshStore)) \<and>
   activeGroup freshStore = ''Default'' \<and>
   activeGroup (snd (bm_createGroup exampleEnv (Some ''Tests'') freshStore)) = ''Tests'' \<and>
   bookmarkGroups (snd (bm_createGroup exampleEnv (Some ''Tests'') freshStore))
     = [(''Default'', Str ''#fff59d''), (''Tests'', Str ''#e4a3f5'')]"
proof -
  have h1: "''Tests'' \<noteq> []" by simp
  have h2: "\<not> truthy (js_get (bookmarkGroups freshStore) ''Tests'')"
    by (simp add: freshStore_def store_def js_get_simps)
  have h3: "truthy (js_get (bookmarkGroups freshStore) (activeGroup freshStore))"
    and h4: "activeGroup freshStore = ''Default''"
    by (simp_all add: freshStore_def store_def js_get_simps)
  have h5: "bookmarksOwned freshStore \<and> ''Tests'' \<notin> fst ` set (bookmarkGroups freshStore)"
    by (simp add: freshStore_def store_def bookmarksOwned_def)
  have c: "bookmarkGroups freshStore @ [(''Tests'', Str (hslToHex exampleEnv (draws freshStore)))]
           = [(''Default'', Str ''#fff59d''), (''Tests'', Str ''#e4a3f5'')]"
    by (simp add: freshStore_def store_def hslToHex_def exampleEnv_def)
  note t = create_group_becomes_active [OF h1 h2 refl, of exampleEnv]
  from t have a: "activeGroup (snd (bm_createGroup exampleEnv (Some ''Tests'') freshStore)) = ''Tests''"
    by blast
  from t h5 have "bookmarkGroups (snd (bm_createGroup exampleEnv (Some ''Tests'') freshStore))
      = bookmarkGroups freshStore @ [(''Tests'', Str (hslToHex exampleEnv (draws freshStore)))]"
    by blast
  with c have g: "bookmarkGroups (snd (bm_createGroup exampleEnv (Some ''Tests'') freshStore))
     = [(''Default'', Str ''#fff59d''), (''Tests'', Str ''#e4a3f5'')]" by simp
  from h1 h2 h3 h4 a g show ?thesis by blast
qed

section \<open>Navigation in sorted order\<close>

lemma set_insertBy: "set (insertBy cmp x ys) = insert x (set ys)"
  by (induction ys) auto

lemma mset_insertBy: "mset (insertBy cmp x ys) = add_mset x (mset ys)"
  by (induction ys) auto

lemma mset_js_sort: "mset (js_sort cmp xs) = mset xs"
  by (induction xs) (simp_all add: js_sort_def mset_insertBy)

lemma sorted_insertBy:
  assumes total: "\<And>a b. \<not> cmp a b \<le> 0 \<Longrightarrow> R b a"
    and le: "\<And>a b. cmp a b \<le> 0 \<Longrightarrow> R a b"
    and trans: "\<And>a b c. R a b \<Longrightarrow> R b c \<Longrightarrow> R a c"
  shows "sorted_wrt R ys \<Longrightarrow> sorted_wrt R (insertBy cmp x ys)"
proof (induction ys)
  case Nil
  then show ?case by simp
next
  case (Cons y ys)
  show ?case
  proof (cases "cmp x y \<le> 0")
    case True
    then have "R x y" by (rule le)
    with Cons.prems trans have "\<forall>z\<in>set (y # ys). R x z" by auto
    with True Cons.prems show ?thesis by simp
  next
    case False
    then have "R y x" by (rule total)
    with False Cons show ?thesis by (auto simp: set_insertBy)
  qed
qed

lemma sorted_js_sort:
  assumes "\<And>a b. \<not> cmp a b \<le> 0 \<Longrightarrow> R b a"
    and "\<And>a b. cmp a b \<le> 0 \<Longrightarrow> R a b"
    and "\<And>a b c. R a b \<Longrightarrow> R b c \<Longrightarrow> R a c"
  shows "sorted_wrt R (js_sort cmp xs)"
proof (induction xs)
  case Nil
  then show ?case by (simp add: js_sort_def)
next
  case (Cons x xs)
  from sorted_insertBy [of cmp R, OF assms Cons.IH]
  show ?case by (simp add: js_sort_def)
qed

lemma totalOrderCompare_zero:
  "totalOrderCompare cmp \<Longrightarrow> (cmp a b = 0) = (a = b)"
  unfolding totalOrderCompare_def by blast

lemma totalOrderCompare_flip:
  "totalOrderCompare cmp \<Longrightarrow> (cmp a b < 0) = (0 < cmp b a)"
  unfolding totalOrderCompare_def by blast

lemma totalOrderCompare_trans:
  "totalOrderCompare cmp \<Longrightarrow> cmp a b < 0 \<Longrightarrow> cmp b c < 0 \<Longrightarrow> cmp a c < 0"
  unfolding totalOrderCompare_def by blast

lemma compareBookmarks_le:
  assumes "totalOrderCompare (localeCompare env)"
  shows "(compareBookmarks env a b \<le> 0) = bookmarkBefore env a b"
proof (cases "uri a = uri b")
  case True
  with totalOrderCompare_zero [OF assms, of "uri a" "uri b"]
  show ?thesis by (simp add: compareBookmarks_def bookmarkBefore_def)
next
  case False
  with totalOrderCompare_zero [OF assms, of "uri a" "uri b"]
  show ?thesis by (simp add: compareBookmarks_def bookmarkBefore_def order_le_less)
qed

lemma bookmarkBefore_total:
  assumes "totalOrderCompare (localeCompare env)" and n: "\<not> bookmarkBefore env a b"
  shows "bookmarkBefore env b a"
proof (cases "uri a = uri b")
  case True
  with n show ?thesis by (simp add: bookmarkBefore_def)
next
  case False
  with totalOrderCompare_zero [OF assms(1), of "uri a" "uri b"]
  have "localeCompare env (uri a) (uri b) \<noteq> 0" by simp
  moreover from n have "\<not> localeCompare env (uri a) (uri b) < 0"
    by (simp add: bookmarkBefore_def)
  ultimately have "0 < localeCompare env (uri a) (uri b)" by simp
  with totalOrderCompare_flip [OF assms(1), of "uri b" "uri a"]
  show ?thesis by (simp add: bookmarkBefore_def)
qed

lemma bookmarkBefore_trans:
  assumes t: "totalOrderCompare (localeCompare env)"
    and ab: "bookmarkBefore env a b" and bc: "bookmarkBefore env b c"
  shows "bookmarkBefore env a c"
proof (cases "uri a = uri b")
  case True
  show ?thesis
  proof (cases "uri b = uri c")
    case same: True
    with True ab bc totalOrderCompare_zero [OF t, of "uri a" "uri a"]
    show ?thesis by (simp add: bookmarkBefore_def)
  next
    case False
    with bc have "localeCompare env (uri b) (uri c) < 0" by (simp add: bookmarkBefore_def)
    with True show ?thesis by (simp add: bookmarkBefore_def)
  qed
next
  case False
  with ab have l: "localeCompare env (uri a) (uri b) < 0" by (simp add: bookmarkBefore_def)
  show ?thesis
  proof (cases "uri b = uri c")
    case True
    with l show ?thesis by (simp add: bookmarkBefore_def)
  next
    case False
    with bc have "localeCompare env (uri b) (uri c) < 0" by (simp add: bookmarkBefore_def)
    with l have "localeCompare env (uri a) (uri c) < 0"
      by (rule totalOrderCompare_trans [OF t])
    then show ?thesis by (simp add: bookmarkBefore_def)
  qed
qed

lemma sorted_activeSorted:
  assumes "totalOrderCompare (localeCompare env)"
  shows "sorted_wrt (bookmarkBefore env) (activeSorted env s)"
  unfolding activeSorted_def
proof (rule sorted_js_sort)
  fix a b c
  show "\<not> compareBookmarks env a b \<le> 0 \<Longrightarrow> bookmarkBefore env b a"
    by (simp add: compareBookmarks_le [OF assms] bookmarkBefore_total [OF assms])
  show "compareBookmarks env a b \<le> 0 \<Longrightarrow> bookmarkBefore env a b"
    by (simp add: compareBookmarks_le [OF assms])
  show "bookmarkBefore env a b \<Longrightarrow> bookmarkBefore env b c \<Longrightarrow> bookmarkBefore env a c"
    by (rule bookmarkBefore_trans [OF assms])
qed

text \<open>Where \<open>findIndex\<close> lands, and the index arithmetic of the two commands.\<close>

lemma findIndex_ge: "- 1 \<le> findIndex P xs"
  by (induction xs) (auto simp: Let_def)

lemma findIndex_first:
  "i < length xs \<Longrightarrow> P (xs ! i) \<Longrightarrow> (\<forall>j<i. \<not> P (xs ! j)) \<Longrightarrow> findIndex P xs = int i"
proof (induction xs arbitrary: i)
  case Nil
  then show ?case by simp
next
  case (Cons x xs)
  show ?case
  proof (cases i)
    case 0
    with Cons.prems show ?thesis by simp
  next
    case (Suc k)
    with Cons.prems have nx: "\<not> P x" by auto
    from Suc Cons.prems have "k < length xs" "P (xs ! k)" by auto
    moreover from Suc Cons.prems have "\<forall>j<k. \<not> P (xs ! j)" by auto
    ultimately have "findIndex P xs = int k" by (rule Cons.IH)
    with nx Suc show ?thesis by (simp add: Let_def)
  qed
qed

lemma findIndex_distinct:
  assumes "distinct (map f xs)" and "i < length xs"
  shows "findIndex (\<lambda>b. f b = f (xs ! i)) xs = int i"
proof (rule findIndex_first [OF assms(2)])
  show "f (xs ! i) = f (xs ! i)" by simp
  show "\<forall>j<i. f (xs ! j) \<noteq> f (xs ! i)"
  proof (intro allI impI)
    fix j assume "j < i"
    with assms have "map f xs ! j \<noteq> map f xs ! i"
      by (simp add: nth_eq_iff_index_eq del: nth_map)
    with \<open>j < i\<close> assms(2) show "f (xs ! j) \<noteq> f (xs ! i)" by simp
  qed
qed

lemma findIndex_none: "(\<forall>x\<in>set xs. \<not> P x) \<Longrightarrow> findIndex P xs = - 1"
  by (induction xs) (auto simp: Let_def)

lemma js_rem_small: "0 \<le> a \<Longrightarrow> a < b \<Longrightarrow> js_rem a b = a"
  by (cases "a = 0") (simp_all add: js_rem_def)

lemma js_rem_self: "0 < b \<Longrightarrow> js_rem b b = 0"
  by (simp add: js_rem_def)

lemma js_rem_plus_self: "0 \<le> a \<Longrightarrow> a < b \<Longrightarrow> js_rem (a + b) b = a"
  by (cases "a + b = 0") (simp_all add: js_rem_def)

lemma js_index_nth: "i < length xs \<Longrightarrow> js_index xs (int i) = Some (xs ! i)"
  by (simp add: js_index_def)

lemma next_at_index:
  assumes "activeSorted env s = xs" and "distinct (map (\<lambda>b. (uri b, line b)) xs)"
    and "i < length xs"
  shows "bm_nextBookmark env (Some (cursorAt (xs ! i))) s =
           Some (xs ! (if Suc i = length xs then 0 else Suc i))"
proof -
  have ne: "xs \<noteq> []" using assms(3) by auto
  have "findIndex (\<lambda>b. (uri b, line b) = (uri (xs ! i), line (xs ! i))) xs = int i"
    using findIndex_distinct [OF assms(2,3)] by simp
  then have idx: "findIndex (\<lambda>b. uri b = uri (xs ! i) \<and> line b = line (xs ! i)) xs = int i"
    by simp
  have r: "js_rem (int i + 1) (int (length xs)) = int (if Suc i = length xs then 0 else Suc i)"
  proof (cases "Suc i = length xs")
    case True
    then have "int i + 1 = int (length xs)" by simp
    with True js_rem_self [of "int (length xs)"] ne show ?thesis by simp
  next
    case False
    with assms(3) js_rem_small [of "int i + 1" "int (length xs)"] show ?thesis by simp
  qed
  have "(if Suc i = length xs then 0 else Suc i) < length xs" using assms(3) by auto
  from js_index_nth [OF this] ne idx r assms(1)
  show ?thesis by (simp add: bm_nextBookmark_def cursorAt_def Let_def)
qed

lemma prev_at_index:
  assumes "activeSorted env s = xs" and "distinct (map (\<lambda>b. (uri b, line b)) xs)"
    and "i < length xs"
  shows "bm_prevBookmark env (Some (cursorAt (xs ! i))) s =
           Some (xs ! (if i = 0 then length xs - 1 else i - 1))"
proof -
  have ne: "xs \<noteq> []" using assms(3) by auto
  have "findIndex (\<lambda>b. (uri b, line b) = (uri (xs ! i), line (xs ! i))) xs = int i"
    using findIndex_distinct [OF assms(2,3)] by simp
  then have idx: "findIndex (\<lambda>b. uri b = uri (xs ! i) \<and> line b = line (xs ! i)) xs = int i"
    by simp
  have r: "js_rem (int i - 1 + int (length xs)) (int (length xs))
             = int (if i = 0 then length xs - 1 else i - 1)"
  proof (cases "i = 0")
    case True
    from assms(3) have "int (length xs - 1) = int (length xs) - 1" by (simp add: of_nat_diff)
    with True assms(3) js_rem_small [of "int (length xs) - 1" "int (length xs)"]
    show ?thesis by simp
  next
    case False
    with assms(3) js_rem_plus_self [of "int i - 1" "int (length xs)"]
    show ?thesis by (simp add: of_nat_diff)
  qed
  have "(if i = 0 then length xs - 1 else i - 1) < length xs" using assms(3) by auto
  from js_index_nth [OF this] ne idx r assms(1)
  show ?thesis by (simp add: bm_prevBookmark_def cursorAt_def Let_def)
qed

text \<open>
  C4, as the code has it. The next and previous commands walk the bookmarks of the
  active group in one order: by file identifier, as the host's \<open>localeCompare\<close> orders
  the identifiers (a total order is all that is asked of it), and within a file by
  ascending line number. When no two of these bookmarks are on the same line of the same
  file, next opens from each bookmark its successor in that order and previous its
  predecessor, and both wrap around: next from the last bookmark opens the first,
  previous from the first opens the last.
\<close>

theorem navigation_order_wraps:
  assumes "totalOrderCompare (localeCompare env)"
    and "activeSorted env s = xs"
  shows "sorted_wrt (bookmarkBefore env) xs \<and>
         mset xs = mset (filter (\<lambda>b. groupName b = activeGroup s) (bookmarks s)) \<and>
         (distinct (map (\<lambda>b. (uri b, line b)) xs) \<longrightarrow>
            (\<forall>i. Suc i < length xs \<longrightarrow>
               bm_nextBookmark env (Some (cursorAt (xs ! i))) s = Some (xs ! Suc i) \<and>
               bm_prevBookmark env (Some (cursorAt (xs ! Suc i))) s = Some (xs ! i)) \<and>
            (xs \<noteq> [] \<longrightarrow>
               bm_nextBookmark env (Some (cursorAt (last xs))) s = Some (hd xs) \<and>
               bm_prevBookmark env (Some (cursorAt (hd xs))) s = Some (last xs)))"
proof -
  have srt: "sorted_wrt (bookmarkBefore env) xs"
    using sorted_activeSorted [OF assms(1), of s] assms(2) by simp
  have perm: "mset xs = mset (filter (\<lambda>b. groupName b = activeGroup s) (bookmarks s))"
    using assms(2) by (auto simp: activeSorted_def mset_js_sort)
  have step: "bm_nextBookmark env (Some (cursorAt (xs ! i))) s = Some (xs ! Suc i) \<and>
              bm_prevBookmark env (Some (cursorAt (xs ! Suc i))) s = Some (xs ! i)"
    if d: "distinct (map (\<lambda>b. (uri b, line b)) xs)" and i: "Suc i < length xs" for i
  proof -
    from i have "i < length xs" by simp
    from next_at_index [OF assms(2) d this] i
    have n: "bm_nextBookmark env (Some (cursorAt (xs ! i))) s = Some (xs ! Suc i)" by simp
    from prev_at_index [OF assms(2) d i]
    have p: "bm_prevBookmark env (Some (cursorAt (xs ! Suc i))) s = Some (xs ! i)" by simp
    from n p show ?thesis by blast
  qed
  have wrap: "bm_nextBookmark env (Some (cursorAt (last xs))) s = Some (hd xs) \<and>
              bm_prevBookmark env (Some (cursorAt (hd xs))) s = Some (last xs)"
    if d: "distinct (map (\<lambda>b. (uri b, line b)) xs)" and ne: "xs \<noteq> []"
  proof -
    from ne have l: "length xs - 1 < length xs" and z: "0 < length xs" by simp_all
    from next_at_index [OF assms(2) d l] ne
    have n: "bm_nextBookmark env (Some (cursorAt (last xs))) s = Some (hd xs)"
      by (simp add: last_conv_nth hd_conv_nth)
    from prev_at_index [OF assms(2) d z] ne
    have p: "bm_prevBookmark env (Some (cursorAt (hd xs))) s = Some (last xs)"
      by (simp add: last_conv_nth hd_conv_nth)
    from n p show ?thesis by blast
  qed
  from srt perm step wrap show ?thesis by blast
qed

lemma lexCompare_zero: "(lexCompare a b = 0) = (a = b)"
  by (induction a b rule: lexCompare.induct) auto

lemma lexCompare_flip: "(lexCompare a b < 0) = (0 < lexCompare b a)"
  by (induction a b rule: lexCompare.induct) auto

lemma lexCompare_trans: "lexCompare a b < 0 \<Longrightarrow> lexCompare b c < 0 \<Longrightarrow> lexCompare a c < 0"
proof (induction a b arbitrary: c rule: lexCompare.induct)
  case 1
  then show ?case by simp
next
  case (2 y ys)
  then show ?case by (cases c) (auto split: if_splits)
next
  case (3 x xs)
  then show ?case by simp
next
  case (4 x xs y ys)
  show ?case
  proof (cases c)
    case Nil
    with "4.prems" show ?thesis by simp
  next
    case (Cons z zs)
    show ?thesis
    proof (cases "(of_char x :: nat) = of_char y \<and> (of_char y :: nat) = of_char z")
      case True
      with "4.prems" Cons have "lexCompare xs ys < 0" "lexCompare ys zs < 0" by simp_all
      with True "4.IH" have "lexCompare xs zs < 0" by simp
      with True Cons show ?thesis by simp
    next
      case False
      with "4.prems" Cons show ?thesis by (auto split: if_splits)
    qed
  qed
qed

lemma totalOrderCompare_lexCompare: "totalOrderCompare lexCompare"
  unfolding totalOrderCompare_def
  using lexCompare_zero lexCompare_flip lexCompare_trans by blast

theorem navigation_order_wraps_witness:
  "totalOrderCompare (localeCompare exampleEnv) \<and>
   activeSorted exampleEnv navStore =
     [mark ''fileA'' 3 ''Default'', mark ''fileA'' 9 ''Default'', mark ''fileB'' 1 ''Default''] \<and>
   bm_nextBookmark exampleEnv (Some (cursorAt (mark ''fileB'' 1 ''Default''))) navStore
     = Some (mark ''fileA'' 3 ''Default'') \<and>
   bm_prevBookmark exampleEnv (Some (cursorAt (mark ''fileA'' 3 ''Default''))) navStore
     = Some (mark ''fileB'' 1 ''Default'')"
proof -
  let ?xs = "[mark ''fileA'' 3 ''Default'', mark ''fileA'' 9 ''Default'', mark ''fileB'' 1 ''Default'']"
  have h1: "totalOrderCompare (localeCompare exampleEnv)"
    by (simp add: exampleEnv_def totalOrderCompare_lexCompare)
  have h2: "activeSorted exampleEnv navStore = ?xs"
    by (simp add: activeSorted_def navStore_def store_def mark_def js_sort_def
        compareBookmarks_def exampleEnv_def)
  have h3: "distinct (map (\<lambda>b. (uri b, line b)) ?xs)" by (simp add: mark_def)
  have ne: "?xs \<noteq> []" by simp
  from navigation_order_wraps [OF h1 h2] h3 ne
  have "bm_nextBookmark exampleEnv (Some (cursorAt (last ?xs))) navStore = Some (hd ?xs) \<and>
        bm_prevBookmark exampleEnv (Some (cursorAt (hd ?xs))) navStore = Some (last ?xs)"
    by blast
  with h1 h2 show ?thesis by simp
qed

text \<open>
  Two bookmarks of the active group on one line: joining lines 2 to 4 of fileA brings
  the bookmark of line 4 onto line 2, where there is one. The sorted list is then
  (fileA,0), (fileA,2), (fileA,2); \<open>findIndex\<close> finds the first of the two, so next
  from line 2 opens line 2 again and never wraps to the first bookmark.
\<close>

theorem next_stuck_on_shared_line_counterexample:
  "activeSorted exampleEnv (onDidChangeTextDocument exampleEnv ''fileA'' [joinChange] tripleStore)
     = [mark ''fileA'' 0 ''Default'', mark ''fileA'' 2 ''Default'', mark ''fileA'' 2 ''Default''] \<and>
   bm_nextBookmark exampleEnv (Some (cursorAt (mark ''fileA'' 2 ''Default'')))
       (onDidChangeTextDocument exampleEnv ''fileA'' [joinChange] tripleStore)
     = Some (mark ''fileA'' 2 ''Default'') \<and>
   bm_nextBookmark exampleEnv (Some (cursorAt (mark ''fileA'' 2 ''Default'')))
       (onDidChangeTextDocument exampleEnv ''fileA'' [joinChange] tripleStore)
     \<noteq> Some (mark ''fileA'' 0 ''Default'')"
proof -
  let ?s = "onDidChangeTextDocument exampleEnv ''fileA'' [joinChange] tripleStore"
  have b: "bookmarks ?s =
      [mark ''fileA'' 0 ''Default'', mark ''fileA'' 2 ''Default'', mark ''fileA'' 2 ''Default'']"
    by (simp add: onDidChangeTextDocument_def applyChange_def lineDelta_def joinChange_def
        tripleStore_def store_def mark_def Let_def)
  have a: "activeGroup ?s = ''Default''"
    by (simp add: onDidChangeTextDocument_def tripleStore_def store_def)
  have h: "activeSorted exampleEnv ?s =
      [mark ''fileA'' 0 ''Default'', mark ''fileA'' 2 ''Default'', mark ''fileA'' 2 ''Default'']"
    unfolding activeSorted_def
    by (simp only: b a) (simp add: mark_def js_sort_def compareBookmarks_def)
  have n: "bm_nextBookmark exampleEnv (Some (cursorAt (mark ''fileA'' 2 ''Default''))) ?s
             = Some (mark ''fileA'' 2 ''Default'')"
    unfolding bm_nextBookmark_def
    by (simp only: h) (simp add: mark_def cursorAt_def js_rem_def js_index_def Let_def)
  from h n show ?thesis by (simp add: mark_def)
qed

text \<open>
  Off every bookmark, \<open>findIndex\<close> is \<open>-1\<close>: next opens index 0 and, in a list of two
  or more, previous opens index \<open>n - 2\<close>.
\<close>

lemma off_bookmark_targets:
  assumes "activeSorted env s = xs" and "2 \<le> length xs"
    and "filter (\<lambda>b. uri b = cursorUri c \<and> line b = cursorLine c) xs = []"
  shows "bm_nextBookmark env (Some c) s = Some (xs ! 0)"
    and "bm_prevBookmark env (Some c) s = Some (xs ! (length xs - 2))"
proof -
  let ?P = "\<lambda>b. uri b = cursorUri c \<and> line b = cursorLine c"
  from assms(2) have ne: "xs \<noteq> []" by (cases xs) simp_all
  from assms(3) have "\<forall>b\<in>set xs. \<not> ?P b" by (simp add: filter_empty_conv)
  then have idx: "findIndex ?P xs = - 1" by (rule findIndex_none)
  have z: "0 < length xs" and l: "length xs - 2 < length xs" using assms(2) by arith+
  have n: "js_rem (- 1 + 1) (int (length xs)) = int 0" by (simp add: js_rem_def)
  from assms(2) have "int (length xs - 2) = int (length xs) - 2" by (simp add: of_nat_diff)
  with assms(2) js_rem_small [of "int (length xs) - 2" "int (length xs)"]
  have p: "js_rem (- 1 - 1 + int (length xs)) (int (length xs)) = int (length xs - 2)"
    by simp
  from js_index_nth [OF z] ne idx n assms(1)
  show "bm_nextBookmark env (Some c) s = Some (xs ! 0)"
    by (simp add: bm_nextBookmark_def Let_def)
  from js_index_nth [OF l] ne idx p assms(1)
  show "bm_prevBookmark env (Some c) s = Some (xs ! (length xs - 2))"
    by (simp add: bm_prevBookmark_def Let_def)
qed

text \<open>
  C5. With the cursor on a line that is no bookmark of the active group, \<open>findIndex\<close>
  returns \<open>-1\<close>: next opens the first bookmark of the sorted order, index
  \<open>(-1 + 1) % n = 0\<close>, but previous opens index \<open>(-1 - 1 + n) % n = n - 2\<close>, the
  bookmark before the last one. Here the cursor is on line 5 of fileA, between the
  bookmarks (fileA,3), (fileA,9), (fileB,1): previous opens (fileA,9), not (fileB,1).
\<close>

theorem prev_off_bookmark_opens_second_to_last:
  "activeSorted exampleEnv navStore =
     [mark ''fileA'' 3 ''Default'', mark ''fileA'' 9 ''Default'', mark ''fileB'' 1 ''Default''] \<and>
   bm_nextBookmark exampleEnv
       (Some \<lparr>cursorUri = ''fileA'', cursorLine = 5, cursorText = ''text''\<rparr>) navStore
     = Some (mark ''fileA'' 3 ''Default'') \<and>
   bm_prevBookmark exampleEnv
       (Some \<lparr>cursorUri = ''fileA'', cursorLine = 5, cursorText = ''text''\<rparr>) navStore
     = Some (mark ''fileA'' 9 ''Default'')"
proof -
  have h: "activeSorted exampleEnv navStore =
     [mark ''fileA'' 3 ''Default'', mark ''fileA'' 9 ''Default'', mark ''fileB'' 1 ''Default'']"
    by (simp add: activeSorted_def navStore_def store_def mark_def js_sort_def
        compareBookmarks_def exampleEnv_def)
  show ?thesis
    by (simp add: bm_nextBookmark_def bm_prevBookmark_def h Let_def)
       (simp add: mark_def js_rem_def js_index_def)
qed

section \<open>Toggling a bookmark twice\<close>

lemma findIndex_negative: "(findIndex P xs < 0) = (filter P xs = [])"
  by (induction xs) (auto simp: Let_def)

lemma findIndex_found:
  "0 \<le> findIndex P xs \<Longrightarrow>
   nat (findIndex P xs) < length xs \<and> xs ! nat (findIndex P xs) = hd (filter P xs)"
proof (induction xs)
  case Nil
  then show ?case by simp
next
  case (Cons x xs)
  show ?case
  proof (cases "P x")
    case True
    then show ?thesis by simp
  next
    case False
    with Cons.prems have ge: "0 \<le> findIndex P xs"
      by (simp add: Let_def split: if_splits)
    from Cons.IH [OF ge] False ge show ?thesis
      by (simp add: Let_def nat_add_distrib)
  qed
qed

lemma findIndex_append_new:
  "filter P xs = [] \<Longrightarrow> P y \<Longrightarrow> findIndex P (xs @ [y]) = int (length xs)"
  by (induction xs) (auto simp: Let_def split: if_splits)

lemma splice1_append_new: "splice1 (int (length xs)) (xs @ [y]) = xs"
  by (simp add: splice1_def)

lemma splice1_Cons_Suc:
  "0 \<le> i \<Longrightarrow> splice1 (i + 1) (x # xs) = x # splice1 i xs"
  by (simp add: splice1_def nat_add_distrib)

lemma filter_splice1:
  "0 \<le> findIndex P xs \<Longrightarrow> filter P (splice1 (findIndex P xs) xs) = tl (filter P xs)"
proof (induction xs)
  case Nil
  then show ?case by simp
next
  case (Cons x xs)
  show ?case
  proof (cases "P x")
    case True
    then show ?thesis by (simp add: splice1_def)
  next
    case False
    with Cons.prems have ge: "0 \<le> findIndex P xs"
      by (simp add: Let_def split: if_splits)
    from Cons.IH [OF ge] False ge show ?thesis
      by (simp add: Let_def splice1_Cons_Suc)
  qed
qed

lemma mset_splice1:
  "0 \<le> i \<Longrightarrow> nat i < length xs \<Longrightarrow> add_mset (xs ! nat i) (mset (splice1 i xs)) = mset xs"
proof -
  assume "0 \<le> i" and l: "nat i < length xs"
  have "xs = take (nat i) xs @ xs ! nat i # drop (Suc (nat i)) xs"
    using l by (rule id_take_nth_drop)
  then have "mset xs = mset (take (nat i) xs @ xs ! nat i # drop (Suc (nat i)) xs)" by simp
  then show ?thesis by (simp add: splice1_def)
qed

lemma set_splice1: "set (splice1 i xs) \<subseteq> set xs"
  unfolding splice1_def using set_take_subset [of "nat i" xs] set_drop_subset [of "Suc (nat i)" xs]
  by auto

lemma repairActiveGroup_valid:
  "truthy (js_get (bookmarkGroups s) (activeGroup s)) \<Longrightarrow> repairActiveGroup env s = s"
  by (simp add: repairActiveGroup_def)

lemma toggle_valid:
  assumes "truthy (js_get (bookmarkGroups s) (activeGroup s))"
    and "s1 = snd (bm_toggleBookmark env (Some c) s)"
  shows "activeGroup s1 = activeGroup s"
    and "truthy (js_get (bookmarkGroups s1) (activeGroup s1))"
    and "bookmarks s1 =
          (let idx = findIndex (sameLocation (cursorUri c) (cursorLine c) (activeGroup s)) (bookmarks s)
           in if idx \<ge> 0 then splice1 idx (bookmarks s)
              else bookmarks s @ [\<lparr>uri = cursorUri c, line = cursorLine c,
                     content = cursorText c, groupName = activeGroup s\<rparr>])"
proof -
  let ?idx = "findIndex (sameLocation (cursorUri c) (cursorLine c) (activeGroup s)) (bookmarks s)"
  let ?new = "\<lparr>uri = cursorUri c, line = cursorLine c,
                     content = cursorText c, groupName = activeGroup s\<rparr>"
  let ?t = "s\<lparr>bookmarks := (if ?idx \<ge> 0 then splice1 ?idx (bookmarks s) else bookmarks s @ [?new])\<rparr>"
  have s1: "s1 = stateOf (updateAllDecorations env ?t)"
    using assms by (simp add: bm_toggleBookmark_def repairActiveGroup_valid Let_def)
  show a: "activeGroup s1 = activeGroup s" by (simp add: s1)
  have "truthy (js_get (bookmarkGroups ?t) (activeGroup s))" using assms(1) by simp
  from truthy_kept_updateAllDecorations [OF this, of env] assms(1)
  show "truthy (js_get (bookmarkGroups s1) (activeGroup s1))" by (simp add: s1 a)
  show "bookmarks s1 = (let idx = ?idx in if idx \<ge> 0 then splice1 idx (bookmarks s)
              else bookmarks s @ [?new])"
    by (simp add: s1 Let_def)
qed

text \<open>
  C3, as the code has it. With a valid active group \<open>g\<close>, two toggles in a row at the
  same file, line and line text leave the bookmarks as they were when the key
  (file, line, \<open>g\<close>) was not bookmarked before (the list is the same), or was bookmarked
  once with the same text (the same bookmarks, the toggled one now last).
\<close>

theorem toggle_twice_restores:
  assumes "truthy (js_get (bookmarkGroups s) (activeGroup s))"
    and "g = activeGroup s"
    and "filter (sameLocation (cursorUri c) (cursorLine c) g) (bookmarks s) = [] \<or>
         filter (sameLocation (cursorUri c) (cursorLine c) g) (bookmarks s) =
           [\<lparr>uri = cursorUri c, line = cursorLine c, content = cursorText c, groupName = g\<rparr>]"
    and "s1 = snd (bm_toggleBookmark env (Some c) s)"
    and "s2 = snd (bm_toggleBookmark env (Some c) s1)"
  shows "mset (bookmarks s2) = mset (bookmarks s) \<and>
         (filter (sameLocation (cursorUri c) (cursorLine c) g) (bookmarks s) = []
            \<longrightarrow> bookmarks s2 = bookmarks s)"
proof -
  let ?P = "sameLocation (cursorUri c) (cursorLine c) g"
  let ?new = "\<lparr>uri = cursorUri c, line = cursorLine c, content = cursorText c, groupName = g\<rparr>"
  let ?idx = "findIndex ?P (bookmarks s)"
  note t1 = toggle_valid [OF assms(1) assms(4)]
  note t2 = toggle_valid [OF t1(2) assms(5)]
  have P: "?P ?new" by (simp add: sameLocation_def)
  have b1: "bookmarks s1 = (if ?idx \<ge> 0 then splice1 ?idx (bookmarks s) else bookmarks s @ [?new])"
    using t1(3) assms(2) by (simp add: Let_def)
  have b2: "bookmarks s2 =
      (if findIndex ?P (bookmarks s1) \<ge> 0 then splice1 (findIndex ?P (bookmarks s1)) (bookmarks s1)
       else bookmarks s1 @ [?new])"
    using t2(3) t1(1) assms(2) by (simp add: Let_def)
  have absent: "bookmarks s2 = bookmarks s" if e: "filter ?P (bookmarks s) = []"
  proof -
    from e have "?idx < 0" by (simp add: findIndex_negative)
    with b1 have 1: "bookmarks s1 = bookmarks s @ [?new]" by simp
    from findIndex_append_new [OF e P] 1
    have "findIndex ?P (bookmarks s1) = int (length (bookmarks s))" by simp
    with b2 1 show ?thesis by (simp add: splice1_append_new)
  qed
  have present: "mset (bookmarks s2) = mset (bookmarks s)" if e: "filter ?P (bookmarks s) = [?new]"
  proof -
    from e have ge: "0 \<le> ?idx" using findIndex_negative [of ?P "bookmarks s"] by simp
    with b1 have 1: "bookmarks s1 = splice1 ?idx (bookmarks s)" by simp
    from filter_splice1 [OF ge] e have "filter ?P (bookmarks s1) = []" by (simp add: 1)
    then have "findIndex ?P (bookmarks s1) < 0" by (simp add: findIndex_negative)
    with b2 have 2: "bookmarks s2 = bookmarks s1 @ [?new]" by simp
    from findIndex_found [OF ge] e
    have l: "nat ?idx < length (bookmarks s)" and n: "bookmarks s ! nat ?idx = ?new" by simp_all
    from mset_splice1 [OF ge l] n 1 2 show ?thesis by simp
  qed
  from assms(3) absent present show ?thesis by auto
qed

theorem toggle_twice_restores_witness:
  "truthy (js_get (bookmarkGroups editStore) (activeGroup editStore)) \<and>
   filter (sameLocation ''fileA'' 10 (activeGroup editStore)) (bookmarks editStore)
     = [mark ''fileA'' 10 ''Default''] \<and>
   mset (bookmarks (snd (bm_toggleBookmark exampleEnv (Some (cursorAt (mark ''fileA'' 10 ''Default'')))
          (snd (bm_toggleBookmark exampleEnv (Some (cursorAt (mark ''fileA'' 10 ''Default'')))
                 editStore)))))
     = mset (bookmarks editStore)"
proof -
  let ?c = "cursorAt (mark ''fileA'' 10 ''Default'')"
  have h1: "truthy (js_get (bookmarkGroups editStore) (activeGroup editStore))"
    by (simp add: editStore_def store_def js_get_simps)
  have h2: "filter (sameLocation ''fileA'' 10 (activeGroup editStore)) (bookmarks editStore)
     = [mark ''fileA'' 10 ''Default'']"
    by (simp add: editStore_def store_def mark_def sameLocation_def)
  then have h3: "filter (sameLocation (cursorUri ?c) (cursorLine ?c) (activeGroup editStore))
                   (bookmarks editStore) = [] \<or>
                 filter (sameLocation (cursorUri ?c) (cursorLine ?c) (activeGroup editStore))
                   (bookmarks editStore) =
                   [\<lparr>uri = cursorUri ?c, line = cursorLine ?c, content = cursorText ?c,
                     groupName = activeGroup editStore\<rparr>]"
    by (simp add: cursorAt_def mark_def editStore_def store_def)
  from toggle_twice_restores [OF h1 refl h3 refl refl, of exampleEnv] h1 h2
  show ?thesis by blast
qed

theorem toggle_twice_stale_text_counterexample:
  "bookmarks staleStore =
     [\<lparr>uri = ''fileA'', line = 3, content = ''old text'', groupName = ''Default''\<rparr>] \<and>
   bookmarks (snd (bm_toggleBookmark exampleEnv (Some staleCursor)
                (snd (bm_toggleBookmark exampleEnv (Some staleCursor) staleStore)))) =
     [\<lparr>uri = ''fileA'', line = 3, content = ''new text'', groupName = ''Default''\<rparr>] \<and>
   set (bookmarks (snd (bm_toggleBookmark exampleEnv (Some staleCursor)
                (snd (bm_toggleBookmark exampleEnv (Some staleCursor) staleStore)))))
     \<noteq> set (bookmarks staleStore)"
proof -
  have v: "truthy (js_get (bookmarkGroups staleStore) (activeGroup staleStore))"
    by (simp add: staleStore_def store_def js_get_simps)
  note t1 = toggle_valid [OF v refl, of exampleEnv staleCursor]
  note t2 = toggle_valid [OF t1(2) refl, of exampleEnv staleCursor]
  have b0: "bookmarks staleStore =
     [\<lparr>uri = ''fileA'', line = 3, content = ''old text'', groupName = ''Default''\<rparr>]"
    by (simp add: staleStore_def store_def)
  have a0: "activeGroup staleStore = ''Default''" by (simp add: staleStore_def store_def)
  have b1: "bookmarks (snd (bm_toggleBookmark exampleEnv (Some staleCursor) staleStore)) = []"
    by (subst t1(3)) (simp add: b0 a0 staleCursor_def sameLocation_def splice1_def)
  have b2: "bookmarks (snd (bm_toggleBookmark exampleEnv (Some staleCursor)
                (snd (bm_toggleBookmark exampleEnv (Some staleCursor) staleStore)))) =
     [\<lparr>uri = ''fileA'', line = 3, content = ''new text'', groupName = ''Default''\<rparr>]"
    by (subst t2(3), simp only: t1(1) b1 a0) (simp add: staleCursor_def)
  show ?thesis by (simp add: b0 b2)
qed

section \<open>Uniqueness of bookmarks\<close>

lemma sameLocation_key: "sameLocation u l g b = (bookmarkKey b = (u, l, g))"
  by (auto simp: sameLocation_def bookmarkKey_def)

lemma distinct_count_le_1:
  "distinct (map f xs) \<Longrightarrow> length (filter (\<lambda>x. f x = k) xs) \<le> 1"
proof (induction xs)
  case Nil
  then show ?case by simp
next
  case (Cons x xs)
  show ?case
  proof (cases "f x = k")
    case True
    from Cons.prems have "f x \<notin> f ` set xs" by simp
    with True have "\<forall>y\<in>set xs. f y \<noteq> k" by blast
    then have "filter (\<lambda>x. f x = k) xs = []"
      by (simp add: filter_empty_conv)
    with True show ?thesis by simp
  next
    case False
    with Cons show ?thesis by simp
  qed
qed

lemma unique_at_most_one:
  "uniqueBookmarks s \<Longrightarrow> length (filter (sameLocation u l g) (bookmarks s)) \<le> 1"
proof -
  assume "uniqueBookmarks s"
  then have "length (filter (\<lambda>b. bookmarkKey b = (u, l, g)) (bookmarks s)) \<le> 1"
    unfolding uniqueBookmarks_def by (rule distinct_count_le_1)
  moreover have "sameLocation u l g = (\<lambda>b. bookmarkKey b = (u, l, g))"
    by (rule ext) (rule sameLocation_key)
  ultimately show ?thesis by simp
qed

lemma distinct_map_splice1: "distinct (map f xs) \<Longrightarrow> distinct (map f (splice1 i xs))"
proof -
  assume d: "distinct (map f xs)"
  have "map f (splice1 i xs) = take (nat i) (map f xs) @ drop (Suc (nat i)) (map f xs)"
    by (simp add: splice1_def take_map drop_map)
  moreover have "distinct (take (nat i) (map f xs) @ drop (Suc (nat i)) (map f xs))"
    using d set_take_disj_set_drop_if_distinct [of "map f xs" "nat i" "Suc (nat i)"]
    by (simp add: distinct_take distinct_drop)
  ultimately show ?thesis by simp
qed

lemma wellFormed_fields:
  "bookmarks s' = bookmarks s \<Longrightarrow> bookmarkGroups s' = bookmarkGroups s \<Longrightarrow>
   wellFormed s' = wellFormed s"
  by (simp add: wellFormed_def uniqueBookmarks_def bookmarksGrouped_def groupsColoured_def)

lemma wellFormed_updateAllDecorations:
  "wellFormed s \<Longrightarrow> wellFormed (stateOf (updateAllDecorations env s))"
proof -
  assume w: "wellFormed s"
  then have "bookmarksGrouped s" by (simp add: wellFormed_def)
  then have "bookmarkGroups (stateOf (updateAllDecorations env s)) = bookmarkGroups s"
    by (rule groups_updateAllDecorations_grouped)
  with w wellFormed_fields [of "stateOf (updateAllDecorations env s)" s] show ?thesis by simp
qed

lemma snd_thenShow [simp]: "snd (thenShow m r) = stateOf r"
  by (cases r) (auto simp: thenShow_def)

lemma wellFormed_less_bookmarks:
  assumes "wellFormed s" and "distinct (map bookmarkKey bms)" and "set bms \<subseteq> set (bookmarks s)"
  shows "wellFormed (s\<lparr>bookmarks := bms\<rparr>)"
  using assms
  by (auto simp: wellFormed_def uniqueBookmarks_def bookmarksGrouped_def groupsColoured_def
      list_all_iff)

lemma wellFormed_splice1:
  "wellFormed s \<Longrightarrow> wellFormed (s\<lparr>bookmarks := splice1 i (bookmarks s)\<rparr>)"
  by (rule wellFormed_less_bookmarks)
     (simp_all add: wellFormed_def uniqueBookmarks_def distinct_map_splice1 set_splice1)

lemma wellFormed_filter:
  "wellFormed s \<Longrightarrow> wellFormed (s\<lparr>bookmarks := filter P (bookmarks s)\<rparr>)"
  by (rule wellFormed_less_bookmarks)
     (simp_all add: wellFormed_def uniqueBookmarks_def distinct_map_filter)

lemma coloured_key_truthy:
  assumes "groupsColoured s" and "k \<in> fst ` set (bookmarkGroups s)"
  shows "k \<noteq> [] \<and> truthy (js_get (bookmarkGroups s) k)"
proof -
  from assms(2) obtain v where v: "js_own (bookmarkGroups s) k = Some v"
    using js_own_None [of "bookmarkGroups s" k] by (cases "js_own (bookmarkGroups s) k") auto
  then have "(k, v) \<in> set (bookmarkGroups s)" by (rule js_own_Some)
  with assms(1) have "k \<noteq> [] \<and> truthy v" by (auto simp: groupsColoured_def list_all_iff)
  with js_get_own [OF v] show ?thesis by simp
qed

lemma grouped_js_put:
  assumes "list_all (\<lambda>b. truthy (js_get g (groupName b))) bms" and "truthy v"
  shows "list_all (\<lambda>b. truthy (js_get (js_put g k v) (groupName b))) bms"
  using assms by (auto simp: list_all_iff js_get_js_put)

lemma wellFormed_repairActiveGroup:
  assumes w: "wellFormed s" and d: "truthy (firstDefaultColor env)"
  shows "wellFormed (repairActiveGroup env s) \<and>
         truthy (js_get (bookmarkGroups (repairActiveGroup env s))
                   (activeGroup (repairActiveGroup env s)))"
proof (cases "truthy (js_get (bookmarkGroups s) (activeGroup s))")
  case True
  with w show ?thesis by (simp add: repairActiveGroup_def)
next
  case False
  show ?thesis
  proof (cases "Object_keys (bookmarkGroups s)")
    case Nil
    then have g: "bookmarkGroups s = []" by (simp add: Object_keys_Nil)
    let ?s1 = "s\<lparr>bookmarkGroups := js_put [] ''Default'' (firstDefaultColor env),
                  activeGroup := ''Default''\<rparr>"
    have r: "repairActiveGroup env s = ?s1"
      using False Nil g by (simp add: repairActiveGroup_def Let_def js_set_plain)
    from w have "list_all (\<lambda>b. truthy (js_get [] (groupName b))) (bookmarks s)"
      by (simp add: wellFormed_def bookmarksGrouped_def g)
    from grouped_js_put [OF this d]
    have "bookmarksGrouped ?s1" by (simp add: bookmarksGrouped_def)
    with w d have "wellFormed ?s1"
      by (simp add: wellFormed_def uniqueBookmarks_def groupsColoured_def)
    moreover have "truthy (js_get (bookmarkGroups ?s1) (activeGroup ?s1))"
      using d by (simp add: js_get_Cons)
    ultimately show ?thesis by (simp only: r)
  next
    case (Cons n ns)
    then have "n \<in> set (Object_keys (bookmarkGroups s))" by simp
    then have "n \<in> fst ` set (bookmarkGroups s)" by (simp only: set_Object_keys)
    with w coloured_key_truthy [of s n]
    have "n \<noteq> [] \<and> truthy (js_get (bookmarkGroups s) n)" by (simp add: wellFormed_def)
    with False Cons w wellFormed_fields [of "s\<lparr>activeGroup := n\<rparr>" s]
    show ?thesis by (simp add: repairActiveGroup_def Let_def)
  qed
qed

lemma wellFormed_add_bookmark:
  assumes w: "wellFormed s" and t: "truthy (js_get (bookmarkGroups s) (groupName b))"
    and n: "filter (sameLocation (uri b) (line b) (groupName b)) (bookmarks s) = []"
  shows "wellFormed (s\<lparr>bookmarks := bookmarks s @ [b]\<rparr>)"
proof -
  from n have "bookmarkKey b \<notin> bookmarkKey ` set (bookmarks s)"
    by (auto simp: filter_empty_conv sameLocation_key bookmarkKey_def)
  with w t show ?thesis
    by (simp add: wellFormed_def uniqueBookmarks_def bookmarksGrouped_def groupsColoured_def)
qed

lemma wellFormed_toggle:
  assumes w: "wellFormed s" and d: "truthy (firstDefaultColor env)"
  shows "wellFormed (snd (bm_toggleBookmark env e s))"
proof (cases e)
  case None
  with w show ?thesis by (simp add: bm_toggleBookmark_def)
next
  case (Some c)
  let ?s1 = "repairActiveGroup env s"
  let ?P = "sameLocation (cursorUri c) (cursorLine c) (activeGroup ?s1)"
  let ?idx = "findIndex ?P (bookmarks ?s1)"
  let ?new = "\<lparr>uri = cursorUri c, line = cursorLine c, content = cursorText c,
               groupName = activeGroup ?s1\<rparr>"
  from wellFormed_repairActiveGroup [OF w d]
  have w1: "wellFormed ?s1" and t1: "truthy (js_get (bookmarkGroups ?s1) (activeGroup ?s1))"
    by simp_all
  show ?thesis
  proof (cases "0 \<le> ?idx")
    case True
    from wellFormed_updateAllDecorations [OF wellFormed_splice1 [OF w1, of ?idx], of env] Some True
    show ?thesis by (simp add: bm_toggleBookmark_def Let_def)
  next
    case False
    then have "filter ?P (bookmarks ?s1) = []"
      using findIndex_negative [of ?P "bookmarks ?s1"] by simp
    with w1 t1 have "wellFormed (?s1\<lparr>bookmarks := bookmarks ?s1 @ [?new]\<rparr>)"
      by (intro wellFormed_add_bookmark) simp_all
    from wellFormed_updateAllDecorations [OF this, of env] Some False
    show ?thesis by (simp add: bm_toggleBookmark_def Let_def)
  qed
qed

lemma wellFormed_remove:
  assumes w: "wellFormed s"
  shows "wellFormed (snd (bm_removeBookmark env item s))"
proof (cases item)
  case None
  with w show ?thesis by (simp add: bm_removeBookmark_def)
next
  case (Some bm)
  from wellFormed_updateAllDecorations [OF wellFormed_splice1 [OF w], of env] w Some
  show ?thesis by (simp add: bm_removeBookmark_def Let_def)
qed

lemma wellFormed_clear:
  assumes w: "wellFormed s"
  shows "wellFormed (snd (bm_clearBookmarks env confirm s))"
  using wellFormed_updateAllDecorations [OF wellFormed_filter [OF w], of env] w
  by (simp add: bm_clearBookmarks_def)

lemma wellFormed_setActive:
  assumes w: "wellFormed s"
  shows "wellFormed (snd (bm_setActiveGroup env item s))"
proof -
  have "wellFormed (s\<lparr>activeGroup := g\<rparr>)" for g
    using w wellFormed_fields [of "s\<lparr>activeGroup := g\<rparr>" s] by simp
  from wellFormed_updateAllDecorations [OF this, of env] w
  show ?thesis by (simp add: bm_setActiveGroup_def split: option.splits)
qed

lemma wellFormed_create:
  assumes w: "wellFormed s"
  shows "wellFormed (snd (bm_createGroup env input s))"
proof (cases "\<exists>name. input = Some name \<and> name \<noteq> [] \<and> \<not> truthy (js_get (bookmarkGroups s) name)")
  case False
  with w show ?thesis
    by (auto simp: bm_createGroup_def Let_def split: option.splits)
next
  case True
  then obtain name where i: "input = Some name" and n: "name \<noteq> []"
    and f: "\<not> truthy (js_get (bookmarkGroups s) name)" by blast
  let ?col = "Str (hslToHex env (draws s))"
  let ?g = "js_put (bookmarkGroups s) name ?col"
  let ?s1 = "s\<lparr>bookmarkGroups := ?g, draws := Suc (draws s)\<rparr>"
  let ?s3 = "?s1\<lparr>decorationTypes := insert name (decorationTypes ?s1), activeGroup := name\<rparr>"
  have set: "js_set (bookmarkGroups s) name ?col = ?g" using f by (rule js_set_falsy)
  have col1: "js_get (bookmarkGroups ?s1) name = Str (hslToHex env (draws s))"
    by (simp add: js_get_js_put)
  have ne: "hslToHex env (draws s) \<noteq> []" by (simp add: hslToHex_def)
  have e: "ensureDecorationForGroup env name True ?s1
             = Inr (?s1\<lparr>decorationTypes := insert name (decorationTypes ?s1)\<rparr>)"
    using ensureDecorationForGroup_Str [OF col1 ne, of env] by simp
  have r: "snd (bm_createGroup env input s) = stateOf (updateAllDecorations env ?s3)"
    using i n f by (simp add: bm_createGroup_def Let_def set e)
  have u: "uniqueBookmarks ?s3" using w by (simp add: wellFormed_def uniqueBookmarks_def)
  have "list_all (\<lambda>b. truthy (js_get (bookmarkGroups s) (groupName b))) (bookmarks s)"
    using w by (simp add: wellFormed_def bookmarksGrouped_def)
  from grouped_js_put [OF this, of ?col name]
  have o: "bookmarksGrouped ?s3" by (simp add: bookmarksGrouped_def hslToHex_def)
  have c: "groupsColoured ?s3"
    using w n list_all_js_put [of "\<lambda>kv. fst kv \<noteq> [] \<and> truthy (snd kv)" "bookmarkGroups s" name ?col]
    by (simp add: wellFormed_def groupsColoured_def hslToHex_def)
  from u o c have "wellFormed ?s3" by (simp only: wellFormed_def)
  from wellFormed_updateAllDecorations [OF this, of env] r show ?thesis by simp
qed

lemma distinct_retarget:
  assumes d: "distinct (map bookmarkKey bms)"
    and none: "\<forall>b\<in>set bms. groupName b \<noteq> new"
  shows "distinct (map bookmarkKey
           (map (\<lambda>b. if groupName b = old then b\<lparr>groupName := new\<rparr> else b) bms))"
proof -
  let ?r = "\<lambda>b. if groupName b = old then b\<lparr>groupName := new\<rparr> else b"
  from d have db: "distinct bms" and inj: "inj_on bookmarkKey (set bms)"
    by (simp_all add: distinct_map)
  have "inj_on (bookmarkKey \<circ> ?r) (set bms)"
  proof (rule inj_onI)
    fix a b assume a: "a \<in> set bms" and b: "b \<in> set bms"
      and e: "(bookmarkKey \<circ> ?r) a = (bookmarkKey \<circ> ?r) b"
    from none a b have "groupName a \<noteq> new" "groupName b \<noteq> new" by simp_all
    with e have "bookmarkKey a = bookmarkKey b"
      by (auto simp: bookmarkKey_def split: if_splits)
    from inj_onD [OF inj this a b] show "a = b" .
  qed
  with db have "distinct (map (bookmarkKey \<circ> ?r) bms)" by (simp add: distinct_map)
  then show ?thesis by (simp add: comp_def)
qed

lemma wellFormed_rename:
  assumes w: "wellFormed s"
  shows "wellFormed (snd (bm_renameGroup env item input s))"
proof (cases "\<exists>old new. item = Some old \<and> input = Some new \<and> old \<noteq> [] \<and> new \<noteq> [] \<and>
                new \<noteq> old \<and> \<not> truthy (js_get (bookmarkGroups s) new)")
  case False
  with w show ?thesis
    by (auto simp: bm_renameGroup_def Let_def split: option.splits)
next
  case True
  then obtain old new where i: "item = Some old" "input = Some new"
    and n: "old \<noteq> []" "new \<noteq> []" "new \<noteq> old"
    and f: "\<not> truthy (js_get (bookmarkGroups s) new)" by blast
  let ?bms = "map (\<lambda>b. if groupName b = old then b\<lparr>groupName := new\<rparr> else b) (bookmarks s)"
  let ?d = "js_delete (bookmarkGroups s) old"
  let ?g1 = "js_put ?d new (js_get (bookmarkGroups s) old)"
  let ?s1 = "s\<lparr>bookmarkGroups := ?g1, bookmarks := ?bms,
                decorationTypes := decorationTypes s - {old}\<rparr>"
  let ?e = "ensureDecorationForGroup env new True ?s1"
  define v where "v = (if truthy (js_get (bookmarkGroups s) old) then js_get (bookmarkGroups s) old
                       else Str (hslToHex env (draws s)))"
  let ?g = "js_put ?d new v"
  have tv: "truthy v" by (simp add: v_def hslToHex_def)
  have fd: "\<not> truthy (js_get ?d new)" using f n(3) by (simp add: js_get_js_delete)
  have set: "js_set ?d new (js_get (bookmarkGroups s) old) = ?g1" using fd by (rule js_set_falsy)
  have ge: "bookmarkGroups (stateOf ?e) = ?g"
    by (simp add: groups_ensureDecorationForGroup js_get_js_put js_put_js_put v_def)
  have be: "bookmarks (stateOf ?e) = ?bms" by simp
  from w have own: "\<forall>b\<in>set (bookmarks s). truthy (js_get (bookmarkGroups s) (groupName b))"
    by (simp add: wellFormed_def bookmarksGrouped_def list_all_iff)
  with f have none: "\<forall>b\<in>set (bookmarks s). groupName b \<noteq> new" by auto
  from w have "distinct (map bookmarkKey (bookmarks s))"
    by (simp add: wellFormed_def uniqueBookmarks_def)
  from distinct_retarget [OF this none]
  have u: "distinct (map bookmarkKey ?bms)" .
  have o: "list_all (\<lambda>b. truthy (js_get ?g (groupName b))) ?bms"
    using own none tv n by (auto simp: list_all_iff js_get_js_put js_get_js_delete)
  have c: "list_all (\<lambda>kv. fst kv \<noteq> [] \<and> truthy (snd kv)) ?g"
    using w n tv
    by (intro list_all_js_put list_all_js_delete) (simp_all add: wellFormed_def groupsColoured_def)
  from u o c have we: "wellFormed (stateOf ?e)"
    unfolding wellFormed_def uniqueBookmarks_def bookmarksGrouped_def groupsColoured_def
    by (simp only: ge be)
  have r: "snd (bm_renameGroup env item input s) =
             (case ?e of
                Inl (e, st) \<Rightarrow> st
              | Inr s2 \<Rightarrow> stateOf (updateAllDecorations env
                            (if activeGroup s2 = old then s2\<lparr>activeGroup := new\<rparr> else s2)))"
    using i n f by (simp add: bm_renameGroup_def Let_def set split: sum.splits)
  show ?thesis
  proof (cases ?e)
    case (Inl t)
    with we r show ?thesis by (cases t) simp
  next
    case (Inr s2)
    with we have w2: "wellFormed s2" by simp
    let ?s3 = "if activeGroup s2 = old then s2\<lparr>activeGroup := new\<rparr> else s2"
    from w2 wellFormed_fields [of ?s3 s2] have "wellFormed ?s3" by simp
    from wellFormed_updateAllDecorations [OF this, of env] r Inr show ?thesis by simp
  qed
qed

lemma wellFormed_delete:
  assumes w: "wellFormed s" and d: "truthy (firstDefaultColor env)"
  shows "wellFormed (snd (bm_deleteGroup env item confirm s))"
proof (cases "\<exists>name. item = Some name \<and> name \<noteq> [] \<and> confirm = Some ''Yes''")
  case False
  with w show ?thesis
    by (auto simp: bm_deleteGroup_def Let_def split: option.splits)
next
  case True
  then obtain name where i: "item = Some name" and n: "name \<noteq> []"
    and y: "confirm = Some ''Yes''" by blast
  let ?g = "js_delete (bookmarkGroups s) name"
  let ?bms = "filter (\<lambda>b. groupName b \<noteq> name) (bookmarks s)"
  let ?s1 = "s\<lparr>bookmarkGroups := ?g, bookmarks := ?bms,
                decorationTypes := decorationTypes s - {name}\<rparr>"
  let ?s2 = "if activeGroup ?s1 = name
             then (case Object_keys ?g of
                     [] \<Rightarrow> ?s1\<lparr>bookmarkGroups := js_set ?g ''Default'' (firstDefaultColor env),
                               activeGroup := ''Default''\<rparr>
                   | k # _ \<Rightarrow> ?s1\<lparr>activeGroup := k\<rparr>)
             else ?s1"
  from w have own: "\<forall>b\<in>set (bookmarks s). truthy (js_get (bookmarkGroups s) (groupName b))"
    by (simp add: wellFormed_def bookmarksGrouped_def list_all_iff)
  from w have u: "distinct (map bookmarkKey ?bms)"
    by (simp add: wellFormed_def uniqueBookmarks_def distinct_map_filter)
  have c1: "list_all (\<lambda>kv. fst kv \<noteq> [] \<and> truthy (snd kv)) ?g"
    using w by (intro list_all_js_delete) (simp add: wellFormed_def groupsColoured_def)
  have o1: "list_all (\<lambda>b. truthy (js_get ?g (groupName b))) ?bms"
    using own by (auto simp: list_all_iff js_get_js_delete)
  have w1: "wellFormed ?s1"
    using u o1 c1
    by (simp add: wellFormed_def uniqueBookmarks_def bookmarksGrouped_def groupsColoured_def)
  have b2: "bookmarks ?s2 = ?bms" by (simp split: list.splits)
  have "wellFormed ?s2"
  proof (cases "activeGroup s = name \<and> Object_keys ?g = []")
    case False
    then have "bookmarkGroups ?s2 = ?g" by (auto split: list.splits)
    with b2 w1 wellFormed_fields [of ?s2 ?s1] show ?thesis by simp
  next
    case True
    let ?gd = "js_put ?g ''Default'' (firstDefaultColor env)"
    from True have g2: "bookmarkGroups ?s2 = ?gd" by (simp add: js_set_plain)
    have c2: "list_all (\<lambda>kv. fst kv \<noteq> [] \<and> truthy (snd kv)) ?gd"
      using c1 d by (intro list_all_js_put) simp_all
    have o2: "list_all (\<lambda>b. truthy (js_get ?gd (groupName b))) ?bms"
      using o1 d by (rule grouped_js_put)
    from u o2 c2 show ?thesis
      unfolding wellFormed_def uniqueBookmarks_def bookmarksGrouped_def groupsColoured_def
      by (simp only: g2 b2)
  qed
  from wellFormed_updateAllDecorations [OF this, of env] i n y
  show ?thesis by (simp add: bm_deleteGroup_def Let_def)
qed

text \<open>A move onto a key that no bookmark has.\<close>

lemma findIndex_holds:
  assumes "0 \<le> findIndex P xs"
  shows "nat (findIndex P xs) < length xs \<and> P (xs ! nat (findIndex P xs))"
proof -
  from assms have ne: "filter P xs \<noteq> []" using findIndex_negative [of P xs] by simp
  then have "hd (filter P xs) \<in> set (filter P xs)" by (rule hd_in_set)
  then have "P (hd (filter P xs))" by simp
  with findIndex_found [OF assms] show ?thesis by simp
qed

lemma wellFormed_move:
  assumes w: "wellFormed s" and m: "\<not> movesOntoBookmark s item choice"
  shows "wellFormed (snd (bm_moveBookmarkToGroup env item choice s))"
proof (cases item)
  case None
  with w show ?thesis by (simp add: bm_moveBookmarkToGroup_def)
next
  case (Some bm)
  let ?offered = "filter (\<lambda>g. g \<noteq> groupName bm) (Object_keys (bookmarkGroups s))"
  let ?P = "sameLocation (uri bm) (line bm) (groupName bm)"
  let ?idx = "findIndex ?P (bookmarks s)"
  show ?thesis
  proof (cases "showQuickPick ?offered choice")
    case None
    with w Some show ?thesis by (simp add: bm_moveBookmarkToGroup_def Let_def)
  next
    case pick: (Some target)
    show ?thesis
    proof (cases "?offered \<noteq> [] \<and> target \<noteq> [] \<and> 0 \<le> ?idx")
      case False
      with w Some pick show ?thesis by (auto simp: bm_moveBookmarkToGroup_def Let_def)
    next
      case True
      let ?x = "bookmarks s ! nat ?idx"
      let ?bms = "(bookmarks s)[nat ?idx := ?x\<lparr>groupName := target\<rparr>]"
      from True findIndex_holds [of ?P "bookmarks s"]
      have l: "nat ?idx < length (bookmarks s)" and px: "?P ?x" by simp_all
      from True have src: "filter ?P (bookmarks s) \<noteq> []"
        using findIndex_negative [of ?P "bookmarks s"] by simp
      with m Some pick have dst: "filter (sameLocation (uri bm) (line bm) target) (bookmarks s) = []"
        by (simp add: movesOntoBookmark_def)
      from pick obtain i where "i < length ?offered" and "target = ?offered ! i"
        by (auto simp: showQuickPick_def split: option.splits if_splits)
      then have "target \<in> set ?offered" by (simp only: nth_mem)
      then have "target \<in> set (Object_keys (bookmarkGroups s))" by simp
      then have "target \<in> fst ` set (bookmarkGroups s)" by (simp only: set_Object_keys)
      with w coloured_key_truthy [of s target]
      have tt: "truthy (js_get (bookmarkGroups s) target)" by (simp add: wellFormed_def)
      have k: "bookmarkKey (?x\<lparr>groupName := target\<rparr>) = (uri bm, line bm, target)"
        using px by (simp add: bookmarkKey_def sameLocation_def)
      from dst have "(uri bm, line bm, target) \<notin> set (map bookmarkKey (bookmarks s))"
        by (auto simp: filter_empty_conv sameLocation_key)
      with w k have "distinct ((map bookmarkKey (bookmarks s))
                       [nat ?idx := bookmarkKey (?x\<lparr>groupName := target\<rparr>)])"
        by (intro distinct_list_update) (simp_all add: wellFormed_def uniqueBookmarks_def)
      then have u: "distinct (map bookmarkKey ?bms)" by (simp add: map_update)
      from w have "\<forall>b\<in>set (bookmarks s). truthy (js_get (bookmarkGroups s) (groupName b))"
        by (simp add: wellFormed_def bookmarksGrouped_def list_all_iff)
      with tt set_update_subset_insert [of "bookmarks s" "nat ?idx" "?x\<lparr>groupName := target\<rparr>"]
      have o: "list_all (\<lambda>b. truthy (js_get (bookmarkGroups s) (groupName b))) ?bms"
        by (auto simp: list_all_iff)
      from w u o have "wellFormed (s\<lparr>bookmarks := ?bms\<rparr>)"
        by (simp add: wellFormed_def uniqueBookmarks_def bookmarksGrouped_def groupsColoured_def)
      from wellFormed_updateAllDecorations [OF this, of env] Some pick True
      show ?thesis by (simp add: bm_moveBookmarkToGroup_def Let_def)
    qed
  qed
qed

text \<open>A document change sends every bookmark to its landing line.\<close>

lemma applyChange_landing:
  "applyChange docUri change bms = map (\<lambda>bm. bm\<lparr>line := landingLine docUri change bm\<rparr>) bms"
  by (auto simp: applyChange_def landingLine_def Let_def intro!: map_idI[symmetric])

lemma keys_applyChange:
  "map bookmarkKey (applyChange docUri change bms)
     = map (\<lambda>bm. (uri bm, landingLine docUri change bm, groupName bm)) bms"
  by (simp add: applyChange_landing bookmarkKey_def comp_def)

lemma groups_applyChange:
  "map groupName (applyChange docUri change bms) = map groupName bms"
  by (simp add: applyChange_landing comp_def)

lemma wellFormed_changes:
  assumes "wellFormed (s\<lparr>bookmarks := bms\<rparr>)" and "\<not> mergingChanges docUri changes bms"
  shows "wellFormed (s\<lparr>bookmarks := fold (applyChange docUri) changes bms\<rparr>)"
  using assms
proof (induction changes arbitrary: bms)
  case Nil
  then show ?case by simp
next
  case (Cons change changes)
  let ?bms = "applyChange docUri change bms"
  from Cons.prems(2) have nm: "\<not> mergesBookmarks docUri change bms"
    and rest: "\<not> mergingChanges docUri changes ?bms" by simp_all
  from nm have u: "distinct (map bookmarkKey ?bms)"
    by (simp add: keys_applyChange mergesBookmarks_def)
  from Cons.prems(1) have "list_all (\<lambda>g. truthy (js_get (bookmarkGroups s) g)) (map groupName bms)"
    by (simp add: wellFormed_def bookmarksGrouped_def list_all_iff)
  then have "list_all (\<lambda>g. truthy (js_get (bookmarkGroups s) g)) (map groupName ?bms)"
    by (simp only: groups_applyChange)
  then have o: "list_all (\<lambda>b. truthy (js_get (bookmarkGroups s) (groupName b))) ?bms"
    by (simp add: list_all_iff)
  from Cons.prems(1) u o have "wellFormed (s\<lparr>bookmarks := ?bms\<rparr>)"
    by (simp add: wellFormed_def uniqueBookmarks_def bookmarksGrouped_def groupsColoured_def)
  from Cons.IH [OF this rest] show ?case by simp
qed

lemma wellFormed_edit:
  assumes w: "wellFormed s" and m: "\<not> mergingChanges docUri changes (bookmarks s)"
  shows "wellFormed (onDidChangeTextDocument env docUri changes s)"
proof (cases "changes = []")
  case True
  with w show ?thesis by (simp add: onDidChangeTextDocument_def)
next
  case False
  from w have "wellFormed (s\<lparr>bookmarks := bookmarks s\<rparr>)" by simp
  from wellFormed_updateAllDecorations [OF wellFormed_changes [OF this m], of env] False
  show ?thesis by (simp add: onDidChangeTextDocument_def)
qed

text \<open>A change that removes no line, such as typing within a line or inserting lines,
  merges no bookmarks.\<close>

lemma growing_change_merges_nothing:
  assumes d: "distinct (map bookmarkKey bms)" and g: "0 \<le> lineDelta change"
  shows "\<not> mergesBookmarks docUri change bms"
proof -
  let ?k = "\<lambda>bm. (uri bm, landingLine docUri change bm, groupName bm)"
  from d have db: "distinct bms" and inj: "inj_on bookmarkKey (set bms)"
    by (simp_all add: distinct_map)
  have "inj_on ?k (set bms)"
  proof (rule inj_onI)
    fix a b assume a: "a \<in> set bms" and b: "b \<in> set bms" and e: "?k a = ?k b"
    from e g have "line a = line b"
      by (auto simp: landingLine_def split: if_splits)
    with e have "bookmarkKey a = bookmarkKey b" by (simp add: bookmarkKey_def)
    from inj_onD [OF inj this a b] show "a = b" .
  qed
  with db show ?thesis by (simp add: mergesBookmarks_def distinct_map)
qed

lemma wellFormed_exec:
  "wellFormed s \<Longrightarrow> truthy (firstDefaultColor env) \<Longrightarrow> \<not> collides c s \<Longrightarrow>
   wellFormed (exec env c s)"
  by (cases c)
     (simp_all add: wellFormed_toggle wellFormed_remove wellFormed_clear wellFormed_setActive
        wellFormed_create wellFormed_rename wellFormed_delete wellFormed_move wellFormed_edit)

lemma wellFormed_run:
  "wellFormed s \<Longrightarrow> list_all (\<lambda>step. truthy (firstDefaultColor (fst step))) steps \<Longrightarrow>
   \<not> collidingRun steps s \<Longrightarrow> wellFormed (run steps s)"
proof (induction steps arbitrary: s)
  case Nil
  then show ?case by simp
next
  case (Cons step steps)
  obtain env c where st: "step = (env, c)" by (cases step)
  with Cons.prems have "wellFormed (exec env c s)" by (simp add: wellFormed_exec)
  with Cons.IH [of "exec env c s"] Cons.prems st show ?case by simp
qed

text \<open>
  C1, as the code has it. From a well-formed store, after any sequence of toggle,
  remove, clear, set-active-group, create-group, rename-group, delete-group,
  move-to-group and edit commands, run with a configuration whose first default colour
  is a non-empty string, at most one bookmark is stored under each key
  (file, line, group), provided no move in the sequence takes a bookmark to a group that
  already bookmarks that line of that file, and no edit brings two bookmarks of one
  group onto one line of one file.
\<close>

theorem well_formed_store_keeps_bookmarks_unique:
  assumes "wellFormed s"
    and "list_all (\<lambda>step. truthy (firstDefaultColor (fst step))) steps"
    and "\<not> collidingRun steps s"
  shows "length (filter (sameLocation f l g) (bookmarks (run steps s))) \<le> 1"
proof -
  from assms have "wellFormed (run steps s)" by (rule wellFormed_run)
  then have "uniqueBookmarks (run steps s)" by (simp add: wellFormed_def)
  then show ?thesis by (rule unique_at_most_one)
qed

lemmas eval_handlers =
  bm_toggleBookmark_def bm_createGroup_def bm_renameGroup_def bm_deleteGroup_def
  bm_moveBookmarkToGroup_def onDidChangeTextDocument_def applyChange_def lineDelta_def
  repairActiveGroup_def updateAllDecorations_def updateDecorations_def
  ensureDecorationForGroup_def hslToHex_def sameLocation_def splice1_def thenShow_def
  showQuickPick_def Object_keys_def is_array_index_def is_digit_def firstDefaultColor_def
  js_get_simps js_set_def movesOntoBookmark_def mergesBookmarks_def landingLine_def Let_def

theorem well_formed_store_witness:
  "wellFormed freshStore \<and>
   list_all (\<lambda>step. truthy (firstDefaultColor (fst step))) exampleSteps \<and>
   \<not> collidingRun exampleSteps freshStore \<and>
   bookmarks (run exampleSteps freshStore)
     = [mark ''fileA'' 4 ''Specs'', mark ''fileA'' 6 ''Specs''] \<and>
   length (filter (sameLocation ''fileA'' 4 ''Specs'') (bookmarks (run exampleSteps freshStore)))
     \<le> 1"
proof -
  have h1: "wellFormed freshStore"
    by (simp add: wellFormed_def uniqueBookmarks_def bookmarksGrouped_def groupsColoured_def
        freshStore_def store_def)
  have h2: "list_all (\<lambda>step. truthy (firstDefaultColor (fst step))) exampleSteps"
    by (simp add: exampleSteps_def exampleEnv_def firstDefaultColor_def)
  have h3: "\<not> collidingRun exampleSteps freshStore"
    by (simp add: exampleSteps_def freshStore_def store_def exampleEnv_def mark_def
        eval_handlers)
  have b: "bookmarks (run exampleSteps freshStore)
             = [mark ''fileA'' 4 ''Specs'', mark ''fileA'' 6 ''Specs'']"
    by (simp add: exampleSteps_def freshStore_def store_def exampleEnv_def mark_def
        eval_handlers)
  from well_formed_store_keeps_bookmarks_unique [OF h1 h2 h3, of "''fileA''" 4 "''Specs''"]
    h1 h2 h3 b
  show ?thesis by simp
qed

text \<open>
  The two collisions. Moving the bookmark of line 3 of fileA from "Default" to "Tests",
  which bookmarks that line too, and joining lines 2 to 4 of fileA with bookmarks on
  lines 2 and 4, each leave two bookmarks under one key.
\<close>

theorem move_and_edit_duplicate_counterexample:
  "wellFormed twoGroupStore \<and>
   length (filter (sameLocation ''fileA'' 3 ''Tests'')
      (bookmarks (snd (bm_moveBookmarkToGroup exampleEnv (Some (mark ''fileA'' 3 ''Default''))
                         (Some 0) twoGroupStore)))) = 2 \<and>
   wellFormed joinStore \<and>
   length (filter (sameLocation ''fileA'' 2 ''Default'')
      (bookmarks (onDidChangeTextDocument exampleEnv ''fileA'' [joinChange] joinStore))) = 2"
proof -
  have 1: "wellFormed twoGroupStore"
    by (simp add: wellFormed_def uniqueBookmarks_def bookmarksGrouped_def groupsColoured_def
        twoGroupStore_def store_def mark_def bookmarkKey_def js_get_simps)
  have 2: "bookmarks (snd (bm_moveBookmarkToGroup exampleEnv (Some (mark ''fileA'' 3 ''Default''))
                         (Some 0) twoGroupStore))
           = [mark ''fileA'' 3 ''Tests'', mark ''fileA'' 3 ''Tests'']"
    by (simp add: bm_moveBookmarkToGroup_def twoGroupStore_def store_def mark_def
        showQuickPick_def Object_keys_def is_array_index_def is_digit_def sameLocation_def Let_def)
  have 3: "wellFormed joinStore"
    by (simp add: wellFormed_def uniqueBookmarks_def bookmarksGrouped_def groupsColoured_def
        joinStore_def store_def mark_def bookmarkKey_def js_get_simps)
  have 4: "bookmarks (onDidChangeTextDocument exampleEnv ''fileA'' [joinChange] joinStore)
           = [mark ''fileA'' 2 ''Default'', mark ''fileA'' 2 ''Default'']"
    by (simp add: onDidChangeTextDocument_def applyChange_def lineDelta_def joinChange_def
        joinStore_def store_def mark_def Let_def)
  show ?thesis
    by (simp only: 1 2 3 4) (simp add: sameLocation_def mark_def)
qed

lemma counterexample_commands_collide:
  "collides (Move (Some (mark ''fileA'' 3 ''Default'')) (Some 0)) twoGroupStore"
  "collides (Edit ''fileA'' [joinChange]) joinStore"
  by (simp_all add: twoGroupStore_def joinStore_def joinChange_def store_def mark_def
      eval_handlers)

end
